theory Spec2Isabelle
  imports Main
begin

section \<open>The Home Assistant websocket client (class \<open>HaWebsocket\<close>)\<close>

text \<open>
  A shallow embedding of the class \<open>HaWebsocket\<close>.  Its fields are a record and each
  method is a function on that record.  A \<^verbatim>\<open>throw\<close> is the left branch of a sum, which
  also carries the object as the method left it.  Calls into the websocket library and
  into the event emitter append to logs kept in the record.  An \<^verbatim>\<open>async\<close> method runs
  to completion: two calls do not interleave at an \<^verbatim>\<open>await\<close>.
\<close>

subsection \<open>JavaScript values\<close>

text \<open>
  Values are primitives or references to plain objects in a heap.  An object is the list
  of its own enumerable properties in insertion order.  Arrays, functions, fractional
  numbers and the members an object inherits from \<open>Object.prototype\<close> are not modelled.
\<close>

type_synonym addr = nat

datatype jsval = JUndefined | JNull | JBool bool | JNum int | JStr string | JRef addr

type_synonym obj = "(string \<times> jsval) list"

type_synonym heap = "obj list"

fun truthy :: "jsval \<Rightarrow> bool" where
  "truthy JUndefined = False"
| "truthy JNull = False"
| "truthy (JBool b) = b"
| "truthy (JNum n) = (n \<noteq> 0)"
| "truthy (JStr s) = (s \<noteq> [])"
| "truthy (JRef a) = True"

text \<open>
  The properties of the object at an address.  A reference always points into the heap
  (see \<open>heap_ok\<close>); outside it the model reads an empty object.
\<close>

definition deref :: "heap \<Rightarrow> addr \<Rightarrow> obj" where
  "deref h a = (if a < length h then h ! a else [])"

text \<open>Decimal digits, for the index keys of a string and for a number used as a key.\<close>

function show_nat :: "nat \<Rightarrow> string" where
  "show_nat n =
     (if n < 10 then [''0123456789'' ! n]
      else show_nat (n div 10) @ [''0123456789'' ! (n mod 10)])"
  by pat_completeness auto
termination
  by (relation "measure id") auto

definition show_int :: "int \<Rightarrow> string" where
  "show_int i = (if i < 0 then CHR ''-'' # show_nat (nat (- i)) else show_nat (nat i))"

text \<open>The string a value turns into as a property key or in a template literal.\<close>

fun to_key :: "jsval \<Rightarrow> string" where
  "to_key (JStr s) = s"
| "to_key (JNum n) = show_int n"
| "to_key (JBool b) = (if b then ''true'' else ''false'')"
| "to_key JNull = ''null''"
| "to_key JUndefined = ''undefined''"
| "to_key (JRef a) = ''[object Object]''"

text \<open>
  The own enumerable properties of a value, as \<open>Object.keys\<close> and the spread \<open>{...v}\<close> see
  them: those of the object, the characters of a string under their indices, none for
  any other primitive.  (The order of integer-like keys is not modelled.)
\<close>

fun own_props :: "heap \<Rightarrow> jsval \<Rightarrow> obj" where
  "own_props h (JRef a) = deref h a"
| "own_props h (JStr s) = map (\<lambda>i. (show_nat i, JStr [s ! i])) [0..<length s]"
| "own_props h v = []"

text \<open>
  The property read \<open>v[k]\<close> for a receiver that is neither \<open>null\<close> nor \<open>undefined\<close>
  (for those two it throws; the one read of the source that can meet them,
  \<open>user.is_admin\<close>, tests for them first).
\<close>

fun get_prop :: "heap \<Rightarrow> jsval \<Rightarrow> string \<Rightarrow> jsval" where
  "get_prop h (JRef a) k = (case map_of (deref h a) k of Some v \<Rightarrow> v | None \<Rightarrow> JUndefined)"
| "get_prop h (JStr s) k =
     (if k = ''length'' then JNum (int (length s))
      else (case map_of (own_props h (JStr s)) k of Some v \<Rightarrow> v | None \<Rightarrow> JUndefined))"
| "get_prop h v k = JUndefined"

text \<open>Writing a property keeps the place of a key that exists and appends a new one.\<close>

fun obj_set :: "string \<Rightarrow> jsval \<Rightarrow> obj \<Rightarrow> obj" where
  "obj_set k v [] = [(k, v)]"
| "obj_set k v (p # ps) = (if fst p = k then (k, v) # ps else p # obj_set k v ps)"

subsection \<open>The object's fields\<close>

text \<open>
  The four connection states; the source numbers them 0 to 3 and only compares them.
\<close>

datatype conn_state = CONNECTING | CONNECTED | DISCONNECTED | ERROR

text \<open>
  What the object throws or a promise rejects with: the numbered error constants of the
  websocket library, an \<open>Error\<close> with its message, the \<open>TypeError\<close> of the runtime (a
  property read of \<open>null\<close>, a call of \<open>undefined\<close>, a write to a primitive), or any other
  value a library promise rejects with.
\<close>

datatype lib_error =
  ERR_CANNOT_CONNECT | ERR_INVALID_AUTH | ERR_CONNECTION_LOST
  | ERR_HASS_HOST_REQUIRED | ERR_INVALID_HTTPS_TO_HTTP

datatype thrown = Lib lib_error | Error string | TypeError | Rejected jsval

text \<open>
  \<open>client.subscribeEvents(callback, type)\<close> with a type subscribes to one event type,
  without one to every event.  It resolves to a function that unsubscribes again; the
  model keeps, as that function, what it unsubscribes from.  The hub is taken to
  acknowledge every subscription (the \<^verbatim>\<open>await\<close> resolves).
\<close>

datatype target = AllEvents | EventType string

datatype net_op = SubscribeEvents target | UnsubscribeEvents target

type_synonym unsub = target

text \<open>
  The client: whether \<open>close()\<close> was called on it, the events \<open>connect\<close> has added
  listeners for, and the collections \<open>connect\<close> has subscribed to.
\<close>

record client =
  closeRequested :: bool
  clientListeners :: "string list"
  collections :: "string list"

definition new_client :: client where
  "new_client = \<lparr>closeRequested = False, clientListeners = [], collections = []\<rparr>"

text \<open>
  \<open>emit\<close> runs the listeners of a topic at once, so each of them sees the cache as it is at
  that moment: an emission records the topic, the arguments, and the cache and heap then.
\<close>

record emission =
  topic :: string
  args :: "jsval list"
  seen_states :: jsval
  seen_heap :: heap

text \<open>The server configuration the object is constructed with.\<close>

record config =
  baseUrl :: string
  legacy :: bool
  apiPass :: string
  rejectUnauthorizedCerts :: bool
  connectionDelay :: jsval

text \<open>
  \<open>subscribedEvents\<close> is a \<open>Set\<close>: a list without repetition, in insertion order.
  \<open>unsubCallback\<close> is an object used as a dictionary.  \<open>servicesLoaded\<close> is not set by the
  constructor; it is only ever tested for truth, so the missing field is \<open>False\<close>.
  \<open>emitted\<close> is the log of the emissions, \<open>net\<close> the log of the subscribe and unsubscribe
  commands sent to the hub, both oldest first.  \<open>heap\<close> holds the objects that \<open>states\<close>,
  \<open>services\<close> and the payloads refer to.
\<close>

record ha =
  config :: config
  connectionState :: conn_state
  states :: jsval
  services :: jsval
  statesLoaded :: bool
  servicesLoaded :: bool
  client :: "client option"
  subscribedEvents :: "string list"
  unsubCallback :: "string \<rightharpoonup> unsub"
  integrationVersion :: jsval
  emitted :: "emission list"
  net :: "net_op list"
  heap :: heap

type_synonym 'a outcome = "(thrown \<times> ha) + 'a"

text \<open>
  The constructor, run in a heap \<open>h\<close>: \<open>states\<close> and \<open>services\<close> are two new empty objects.
\<close>

definition new_HaWebsocket :: "config \<Rightarrow> heap \<Rightarrow> ha" where
  "new_HaWebsocket cfg h =
     \<lparr>config = cfg, connectionState = DISCONNECTED,
      states = JRef (length h), services = JRef (Suc (length h)),
      statesLoaded = False, servicesLoaded = False, client = None, subscribedEvents = [],
      unsubCallback = Map.empty, integrationVersion = JNum 0, emitted = [], net = [],
      heap = h @ [[], []]\<rparr>"

definition emit :: "string \<Rightarrow> jsval list \<Rightarrow> ha \<Rightarrow> ha" where
  "emit t as s =
     s\<lparr>emitted := emitted s @
        [\<lparr>topic = t, args = as, seen_states = states s, seen_heap = heap s\<rparr>]\<rparr>"

text \<open>
  The assignment \<open>r[k] = v\<close>.  The file is in strict mode, where an assignment to a
  property of a primitive throws a \<open>TypeError\<close>.
\<close>

definition set_prop :: "jsval \<Rightarrow> string \<Rightarrow> jsval \<Rightarrow> ha \<Rightarrow> ha outcome" where
  "set_prop r k v s =
     (case r of
        JRef a \<Rightarrow> Inr (s\<lparr>heap := (heap s)[a := obj_set k v (deref (heap s) a)]\<rparr>)
      | _ \<Rightarrow> Inl (TypeError, s))"

text \<open>An object literal: a new object at the next free address.\<close>

definition alloc :: "obj \<Rightarrow> ha \<Rightarrow> jsval \<times> ha" where
  "alloc ob s = (JRef (length (heap s)), s\<lparr>heap := heap s @ [ob]\<rparr>)"

subsection \<open>Sets in insertion order\<close>

text \<open>
  \<open>Set.add\<close>, \<open>new Set(iterable)\<close> and \<open>Set.delete\<close> on a list without repetition.
\<close>

definition set_add :: "'a \<Rightarrow> 'a list \<Rightarrow> 'a list" where
  "set_add x xs = (if x \<in> set xs then xs else xs @ [x])"

definition new_Set :: "'a list \<Rightarrow> 'a list" where
  "new_Set xs = foldl (\<lambda>acc x. set_add x acc) [] xs"

definition set_delete :: "'a \<Rightarrow> 'a list \<Rightarrow> 'a list" where
  "set_delete x xs = removeAll x xs"

subsection \<open>\<open>subscribeEvents\<close> (lines 118 to 175)\<close>

text \<open>\<open>await this.client.subscribeEvents(...)\<close>: a \<open>TypeError\<close> while \<open>client\<close> is \<open>null\<close>.\<close>

definition client_subscribeEvents :: "target \<Rightarrow> ha \<Rightarrow> (unsub \<times> ha) outcome" where
  "client_subscribeEvents t s =
     (case client s of
        None \<Rightarrow> Inl (TypeError, s)
      | Some c \<Rightarrow> Inr (t, s\<lparr>net := net s @ [SubscribeEvents t]\<rparr>))"

text \<open>\<open>this.unsubCallback[e]()\<close>: a \<open>TypeError\<close> when no callback is stored under \<open>e\<close>.\<close>

definition call_unsubCallback :: "string \<Rightarrow> ha \<Rightarrow> ha outcome" where
  "call_unsubCallback e s =
     (case unsubCallback s e of
        None \<Rightarrow> Inl (TypeError, s)
      | Some u \<Rightarrow> Inr (s\<lparr>net := net s @ [UnsubscribeEvents u]\<rparr>))"

text \<open>
  The \<open>forEach\<close> of the wildcard branch, over the members the set had when the loop
  started (deleting the member being visited skips no other one).
\<close>

fun unsubscribe_concrete :: "string list \<Rightarrow> ha \<Rightarrow> ha outcome" where
  "unsubscribe_concrete [] s = Inr s"
| "unsubscribe_concrete (e # es) s =
     (if e \<noteq> ''__ALL__'' then
        (case call_unsubCallback e s of
           Inl x \<Rightarrow> Inl x
         | Inr s1 \<Rightarrow>
             unsubscribe_concrete es
               (s1\<lparr>unsubCallback := (unsubCallback s1)(e := None),
                   subscribedEvents := set_delete e (subscribedEvents s1)\<rparr>))
      else unsubscribe_concrete es s)"

text \<open>\<open>remove.forEach\<close>: call and delete each callback.\<close>

fun remove_unused :: "string list \<Rightarrow> ha \<Rightarrow> ha outcome" where
  "remove_unused [] s = Inr s"
| "remove_unused (e # es) s =
     (case call_unsubCallback e s of
        Inl x \<Rightarrow> Inl x
      | Inr s1 \<Rightarrow> remove_unused es (s1\<lparr>unsubCallback := (unsubCallback s1)(e := None)\<rparr>))"

text \<open>\<open>for (const type of add)\<close>: subscribe and store each callback.\<close>

fun subscribe_each :: "string list \<Rightarrow> ha \<Rightarrow> ha outcome" where
  "subscribe_each [] s = Inr s"
| "subscribe_each (t # ts) s =
     (case client_subscribeEvents (EventType t) s of
        Inl x \<Rightarrow> Inl x
      | Inr (u, s1) \<Rightarrow> subscribe_each ts (s1\<lparr>unsubCallback := (unsubCallback s1)(t \<mapsto> u)\<rparr>))"

text \<open>The desired set with the two event types that are always needed.\<close>

definition currentEvents :: "string list \<Rightarrow> string list" where
  "currentEvents events = set_add ''nodered'' (set_add ''state_changed'' (new_Set events))"

text \<open>
  \<open>events\<close> is the list \<open>Object.values(events)\<close> of the argument, a list of event types.
\<close>

definition subscribeEvents :: "string list \<Rightarrow> ha \<Rightarrow> ha outcome" where
  "subscribeEvents events s =
     (if ''__ALL__'' \<in> set (new_Set events) then
        (if ''__ALL__'' \<in> set (subscribedEvents s) then Inr s
         else
           (case unsubscribe_concrete (subscribedEvents s) s of
              Inl x \<Rightarrow> Inl x
            | Inr s1 \<Rightarrow>
                (case client_subscribeEvents AllEvents s1 of
                   Inl x \<Rightarrow> Inl x
                 | Inr (u, s2) \<Rightarrow>
                     Inr (s2\<lparr>unsubCallback := (unsubCallback s2)(''__ALL__'' \<mapsto> u),
                             subscribedEvents := set_add ''__ALL__'' (subscribedEvents s2)\<rparr>))))
      else
        (let cur = currentEvents events;
             add = new_Set (filter (\<lambda>x. x \<notin> set (subscribedEvents s)) cur);
             remove = new_Set (filter (\<lambda>x. x \<notin> set cur) (subscribedEvents s));
             s1 = s\<lparr>subscribedEvents :=
                      new_Set (filter (\<lambda>x. x \<in> set (subscribedEvents s)) cur @ add)\<rparr>
         in (case remove_unused remove s1 of
               Inl x \<Rightarrow> Inl x
             | Inr s2 \<Rightarrow> subscribe_each add s2)))"

subsection \<open>The snapshot cache (lines 177 to 201 and 313 to 332)\<close>

text \<open>
  The payload is a value in the object's heap.  \<open>Object.keys(msg).length\<close> is the number
  of own properties.
\<close>

definition onClientStates :: "jsval \<Rightarrow> ha \<Rightarrow> ha" where
  "onClientStates msg s =
     (if \<not> truthy msg \<or> length (own_props (heap s) msg) = 0 then s
      else
        (let s1 = s\<lparr>states := msg\<rparr>
         in if \<not> statesLoaded s1
            then emit ''ha_client:states_loaded'' [states s1] (s1\<lparr>statesLoaded := True\<rparr>)
            else s1))"

definition onClientServices :: "jsval \<Rightarrow> ha \<Rightarrow> ha" where
  "onClientServices msg s =
     (if \<not> truthy msg \<or> length (own_props (heap s) msg) = 0 then s
      else
        (let s1 = s\<lparr>services := msg\<rparr>
         in if \<not> servicesLoaded s1
            then emit ''ha_client:services_loaded'' [services s1] (s1\<lparr>servicesLoaded := True\<rparr>)
            else s1))"

text \<open>
  \<open>getStates\<close> and \<open>getServices\<close>.  \<open>forceRefresh\<close> only guards an empty block, so it is
  left out.  \<open>states\<close> and \<open>services\<close> are never \<open>null\<close> or \<open>undefined\<close>: the constructor
  stores objects and the two handlers above store only truthy payloads.
\<close>

definition getStates :: "jsval \<Rightarrow> ha \<Rightarrow> jsval \<times> ha" where
  "getStates entityId s =
     (if truthy entityId then
        (let r = get_prop (heap s) (states s) (to_key entityId)
         in if truthy r then alloc (own_props (heap s) r) s else (JNull, s))
      else alloc (own_props (heap s) (states s)) s)"

definition getServices :: "ha \<Rightarrow> jsval \<times> ha" where
  "getServices s = alloc (own_props (heap s) (services s)) s"

subsection \<open>The event dispatcher (lines 203 to 253)\<close>

text \<open>The three publications of lines 237 to 251, for the envelope \<open>emitEvent\<close>.\<close>

definition publish :: "jsval \<Rightarrow> jsval \<Rightarrow> ha \<Rightarrow> ha" where
  "publish msg emitEvent s =
     (let event_type = get_prop (heap s) emitEvent ''event_type'';
          entity_id = get_prop (heap s) emitEvent ''entity_id'';
          s1 = (if truthy event_type then
                  (let s' = emit (''ha_events:'' @ to_key (get_prop (heap s) msg ''event_type''))
                              [emitEvent] s
                   in if truthy entity_id
                      then emit (''ha_events:'' @ to_key (get_prop (heap s) msg ''event_type'') @
                                   '':'' @ to_key entity_id) [emitEvent] s'
                      else s')
                else s)
      in emit ''ha_events:all'' [emitEvent] s1)"

text \<open>
  \<open>onClientEvents\<close>.  The fields of the envelope \<open>emitEvent\<close> that the test of line 228
  reads are the three values just stored in it.
\<close>

definition onClientEvents :: "jsval \<Rightarrow> ha \<Rightarrow> ha outcome" where
  "onClientEvents msg s =
     (if \<not> truthy msg \<or> \<not> truthy (get_prop (heap s) msg ''data'') \<or>
         get_prop (heap s) msg ''data'' = JStr ''ping''
      then Inr s
      else
        (let eventType = get_prop (heap s) msg ''event_type'';
             data = get_prop (heap s) msg ''data'';
             entityId = get_prop (heap s) data ''entity_id''
         in if eventType = JStr ''nodered'' then
              (let ty = get_prop (heap s) data ''type'';
                   s1 = (if ty = JStr ''loaded''
                         then s\<lparr>integrationVersion := get_prop (heap s) data ''version''\<rparr>
                         else if ty = JStr ''unloaded''
                         then s\<lparr>integrationVersion := JNum 0\<rparr>
                         else s)
               in Inr (emit ''integration'' [ty] s1))
            else
              (case alloc [(''event_type'', eventType), (''entity_id'', entityId),
                           (''event'', data)] s of
                 (emitEvent, s1) \<Rightarrow>
                   (if truthy entityId \<and> eventType = JStr ''state_changed'' \<and> truthy data \<and>
                       truthy (get_prop (heap s1) data ''new_state'')
                    then
                      (case set_prop (states s1) (to_key entityId)
                              (get_prop (heap s1) data ''new_state'') s1 of
                         Inl x \<Rightarrow> Inl x
                       | Inr s2 \<Rightarrow> Inr (publish msg emitEvent s2))
                    else Inr (publish msg emitEvent s1)))))"

subsection \<open>\<open>connect\<close> (lines 48 to 116)\<close>

definition onClientOpen :: "ha \<Rightarrow> ha" where
  "onClientOpen s =
     emit ''ha_client:open'' [] (s\<lparr>integrationVersion := JNum 0, connectionState := CONNECTED\<rparr>)"

text \<open>The \<open>switch\<close> of the \<open>catch\<close> handler: what \<open>connect\<close> throws for a rejection \<open>e\<close>.\<close>

fun connect_rethrow :: "thrown \<Rightarrow> thrown" where
  "connect_rethrow (Lib ERR_CANNOT_CONNECT) = Error ''Cannot connect to Home Assistant server''"
| "connect_rethrow (Lib ERR_INVALID_AUTH) = Error ''Invalid access token or password for websocket''"
| "connect_rethrow (Lib ERR_CONNECTION_LOST) = Error ''connection lost''"
| "connect_rethrow (Lib ERR_HASS_HOST_REQUIRED) = Error ''Base URL not set in server config''"
| "connect_rethrow (Lib ERR_INVALID_HTTPS_TO_HTTP) = Error ''ERR_INVALID_HTTPS_TO_HTTP''"
| "connect_rethrow e = e"

text \<open>
  \<open>connect\<close> awaits two calls of the library: \<open>createConnection\<close>, which resolves to the
  client or rejects, and \<open>getUser\<close>, which resolves to the user record or rejects.  Their
  outcomes are the first two arguments; \<open>s\<close> is the object as the handshake left it.
  The three listeners added to the client and the three collections subscribed to are
  recorded in the client.
\<close>

definition connect :: "thrown + client \<Rightarrow> thrown + jsval \<Rightarrow> ha \<Rightarrow> (bool \<times> ha) outcome" where
  "connect created fetched s =
     (case created of
        Inl e \<Rightarrow>
          Inl (connect_rethrow e, emit ''ha_client:close'' [] (s\<lparr>connectionState := ERROR\<rparr>))
      | Inr c \<Rightarrow>
          (let s1 = s\<lparr>client := Some c\<rparr>
           in case fetched of
                Inl e \<Rightarrow> Inl (e, s1)
              | Inr user \<Rightarrow>
                  if user = JUndefined \<or> user = JNull then Inl (TypeError, s1)
                  else if get_prop (heap s1) user ''is_admin'' = JBool False then
                    Inl (Error ''User required to have admin privileges in Home Assistant'',
                         s1\<lparr>connectionState := ERROR,
                            client := Some (c\<lparr>closeRequested := True\<rparr>)\<rparr>)
                  else
                    (let s2 = emit ''ha_client:connected'' [] (onClientOpen s1)
                     in Inr (True,
                          s2\<lparr>client := Some
                             (c\<lparr>clientListeners := clientListeners c @
                                   [''ready'', ''disconnected'', ''reconnect-error''],
                                collections := collections c @
                                   [''entities'', ''services'', ''config'']\<rparr>)\<rparr>))))"

subsection \<open>The handshake of \<open>createSocket\<close> (lines 354 to 442)\<close>

text \<open>
  One record per \<open>WebSocket\<close> that \<open>connect\<close> (the function inside \<open>createSocket\<close>) creates:
  the variable \<open>invalidAuth\<close> of its closure, which of its four listeners are attached,
  the frames sent and whether \<open>close()\<close> was called, and, as the socket's own state,
  whether it has fired its \<open>error\<close> and its \<open>close\<close> event.  The URL is taken to be well
  formed (the constructor does not throw).
\<close>

record socket =
  ws_url :: string
  ws_rejectUnauthorized :: bool
  invalidAuth :: bool
  open_onOpen :: bool
  message_onMessage :: bool
  close_onClose :: bool
  error_onClose :: bool
  ws_sent :: "(string \<times> string) list list"
  ws_close_called :: bool
  ws_errored :: bool
  ws_closed :: bool

datatype promise = Pending | Resolved nat | RejectedWith lib_error

text \<open>
  The state of one call of \<open>createSocket\<close>: the object \<open>self\<close>, the sockets created so far,
  the delays of the pending \<open>setTimeout\<close> calls (each of them runs \<open>connect\<close>), and the
  promise returned.
\<close>

record handshake =
  self :: ha
  sockets :: "socket list"
  timers :: "nat list"
  promise :: promise

definition MSG_TYPE_AUTH_REQUIRED :: string where "MSG_TYPE_AUTH_REQUIRED = ''auth_required''"

definition MSG_TYPE_AUTH_INVALID :: string where "MSG_TYPE_AUTH_INVALID = ''auth_invalid''"

definition MSG_TYPE_AUTH_OK :: string where "MSG_TYPE_AUTH_OK = ''auth_ok''"

definition socket_url :: "config \<Rightarrow> string" where
  "socket_url cfg = ''ws'' @ drop 4 (baseUrl cfg) @ ''/api/websocket''"

definition authObj :: "config \<Rightarrow> (string \<times> string) list" where
  "authObj cfg =
     [(''type'', ''auth''), (if legacy cfg then ''api_password'' else ''access_token'', apiPass cfg)]"

definition createSocket :: "ha \<Rightarrow> handshake" where
  "createSocket s =
     \<lparr>self = s, sockets = [],
      timers = [if connectionDelay (config s) \<noteq> JBool False then 5000 else 0],
      promise = Pending\<rparr>"

definition new_WebSocket :: "config \<Rightarrow> socket" where
  "new_WebSocket cfg =
     \<lparr>ws_url = socket_url cfg, ws_rejectUnauthorized = rejectUnauthorizedCerts cfg,
      invalidAuth = False, open_onOpen = True, message_onMessage = True,
      close_onClose = True, error_onClose = True, ws_sent = [], ws_close_called = False,
      ws_errored = False, ws_closed = False\<rparr>"

text \<open>The function \<open>connect(promResolve, promReject)\<close> inside \<open>createSocket\<close>.\<close>

definition createSocket_connect :: "handshake \<Rightarrow> handshake" where
  "createSocket_connect w =
     w\<lparr>self := emit ''ha_client:connecting'' [] ((self w)\<lparr>connectionState := CONNECTING\<rparr>),
       sockets := sockets w @ [new_WebSocket (config (self w))]\<rparr>"

text \<open>Settling the promise: only the first \<open>resolve\<close> or \<open>reject\<close> counts.\<close>

definition promResolve :: "nat \<Rightarrow> handshake \<Rightarrow> handshake" where
  "promResolve i w = (if promise w = Pending then w\<lparr>promise := Resolved i\<rparr> else w)"

definition promReject :: "lib_error \<Rightarrow> handshake \<Rightarrow> handshake" where
  "promReject e w = (if promise w = Pending then w\<lparr>promise := RejectedWith e\<rparr> else w)"

definition update_socket :: "nat \<Rightarrow> (socket \<Rightarrow> socket) \<Rightarrow> handshake \<Rightarrow> handshake" where
  "update_socket i f w = w\<lparr>sockets := (sockets w)[i := f (sockets w ! i)]\<rparr>"

text \<open>
  The three listeners of socket \<open>i\<close>.  \<open>onOpen\<close> takes what \<open>socket.send\<close> throws, if
  anything; \<open>onMessage\<close> takes the \<open>type\<close> of the parsed message (a frame that does not
  parse, or has no \<open>type\<close>, changes nothing).
\<close>

definition onOpen :: "nat \<Rightarrow> thrown option \<Rightarrow> handshake \<Rightarrow> handshake" where
  "onOpen i send_throws w =
     (case send_throws of
        None \<Rightarrow> update_socket i (\<lambda>k. k\<lparr>ws_sent := ws_sent k @ [authObj (config (self w))]\<rparr>) w
      | Some err \<Rightarrow>
          update_socket i
            (\<lambda>k. k\<lparr>invalidAuth := (err = Lib ERR_INVALID_AUTH), ws_close_called := True\<rparr>) w)"

definition onMessage :: "nat \<Rightarrow> jsval \<Rightarrow> handshake \<Rightarrow> handshake" where
  "onMessage i message_type w =
     (if message_type = JStr MSG_TYPE_AUTH_INVALID then
        update_socket i (\<lambda>k. k\<lparr>invalidAuth := True, ws_close_called := True\<rparr>) w
      else if message_type = JStr MSG_TYPE_AUTH_OK then
        promResolve i
          (update_socket i
             (\<lambda>k. k\<lparr>open_onOpen := False, message_onMessage := False,
                     close_onClose := False, error_onClose := False\<rparr>) w)
      else w)"

definition onClose :: "nat \<Rightarrow> handshake \<Rightarrow> handshake" where
  "onClose i w =
     (let w1 = update_socket i (\<lambda>k. k\<lparr>close_onClose := False\<rparr>) w
      in if invalidAuth (sockets w ! i) then promReject ERR_INVALID_AUTH w1
         else w1\<lparr>timers := timers w1 @ [5000]\<rparr>)"

text \<open>
  What can happen next: a pending timer fires, or a socket fires an event, which runs the
  listener attached for it, if any.  \<open>onClose\<close> listens for \<open>close\<close> and for \<open>error\<close>.
\<close>

datatype hs_event =
  TimerFires nat
  | SocketOpen nat "thrown option"
  | SocketMessage nat jsval
  | SocketClose nat
  | SocketError nat

fun deliver :: "hs_event \<Rightarrow> handshake \<Rightarrow> handshake" where
  "deliver (TimerFires j) w =
     createSocket_connect (w\<lparr>timers := take j (timers w) @ drop (Suc j) (timers w)\<rparr>)"
| "deliver (SocketOpen i r) w = (if open_onOpen (sockets w ! i) then onOpen i r w else w)"
| "deliver (SocketMessage i t) w =
     (if message_onMessage (sockets w ! i) then onMessage i t w else w)"
| "deliver (SocketClose i) w =
     update_socket i (\<lambda>k. k\<lparr>ws_closed := True\<rparr>)
       (if close_onClose (sockets w ! i) then onClose i w else w)"
| "deliver (SocketError i) w =
     update_socket i (\<lambda>k. k\<lparr>ws_errored := True\<rparr>)
       (if error_onClose (sockets w ! i) then onClose i w else w)"

text \<open>
  The discipline of timers and of a \<open>WebSocket\<close>: only a pending timer fires; a socket that
  has fired \<open>close\<close> fires nothing more; it fires \<open>close\<close> once, and \<open>error\<close> at most once
  and before \<open>close\<close>.
\<close>

fun can_occur :: "hs_event \<Rightarrow> handshake \<Rightarrow> bool" where
  "can_occur (TimerFires j) w = (j < length (timers w))"
| "can_occur (SocketOpen i r) w = (i < length (sockets w) \<and> \<not> ws_closed (sockets w ! i))"
| "can_occur (SocketMessage i t) w = (i < length (sockets w) \<and> \<not> ws_closed (sockets w ! i))"
| "can_occur (SocketClose i) w = (i < length (sockets w) \<and> \<not> ws_closed (sockets w ! i))"
| "can_occur (SocketError i) w =
     (i < length (sockets w) \<and> \<not> ws_closed (sockets w ! i) \<and> \<not> ws_errored (sockets w ! i))"

text \<open>A run of events from a state; \<open>None\<close> when one of them cannot occur.\<close>

fun run :: "hs_event list \<Rightarrow> handshake \<Rightarrow> handshake option" where
  "run [] w = Some w"
| "run (ev # evs) w = (if can_occur ev w then run evs (deliver ev w) else None)"

text \<open>
  \<open>createConnection\<close> of the library awaits the promise of \<open>createSocket\<close>: it rejects with
  what the promise rejects with and resolves to a new client around the socket.
\<close>

definition createConnection :: "handshake \<Rightarrow> (thrown + client) option" where
  "createConnection w =
     (case promise w of
        Pending \<Rightarrow> None
      | RejectedWith e \<Rightarrow> Some (Inl (Lib e))
      | Resolved i \<Rightarrow> Some (Inr new_client))"

text \<open>
  The whole of \<open>connect\<close> on a handshake: \<open>None\<close> while the promise is pending, else the
  value returned or thrown, and the handshake with the object as \<open>connect\<close> left it.
\<close>

definition connect_on :: "handshake \<Rightarrow> thrown + jsval \<Rightarrow> ((thrown + bool) \<times> handshake) option" where
  "connect_on w fetched =
     (case createConnection w of
        None \<Rightarrow> None
      | Some created \<Rightarrow>
          (case connect created fetched (self w) of
             Inl (e, s') \<Rightarrow> Some (Inl e, w\<lparr>self := s'\<rparr>)
           | Inr (b, s') \<Rightarrow> Some (Inr b, w\<lparr>self := s'\<rparr>)))"

section \<open>Notions used in the properties\<close>

subsection \<open>Subscriptions\<close>

text \<open>
  The subscription a callback stored under \<open>e\<close> belongs to, and the invariant of the
  multiplexer: the active set has no repetition, the registry holds, for exactly the
  members of the active set, the callback of that member's subscription, and the client
  exists.  It holds once \<open>connect\<close> has set the client and is kept by \<open>subscribeEvents\<close>.
\<close>

definition target_of :: "string \<Rightarrow> target" where
  "target_of e = (if e = ''__ALL__'' then AllEvents else EventType e)"

definition sub_inv :: "ha \<Rightarrow> bool" where
  "sub_inv s \<longleftrightarrow>
     distinct (subscribedEvents s) \<and>
     unsubCallback s = (\<lambda>e. if e \<in> set (subscribedEvents s) then Some (target_of e) else None) \<and>
     client s \<noteq> None"

text \<open>A sequence of calls of \<open>subscribeEvents\<close>; the result lists the object after each call.\<close>

fun subscribe_run :: "string list list \<Rightarrow> ha \<Rightarrow> ha list outcome" where
  "subscribe_run [] s = Inr []"
| "subscribe_run (ev # evs) s =
     (case subscribeEvents ev s of
        Inl x \<Rightarrow> Inl x
      | Inr s1 \<Rightarrow> (case subscribe_run evs s1 of Inl x \<Rightarrow> Inl x | Inr ss \<Rightarrow> Inr (s1 # ss)))"

text \<open>
  A call with argument \<open>events\<close> took the object from \<open>s\<close> to \<open>s'\<close> by the diff algorithm:
  the commands it sent are as many as the symmetric difference of the active set \<open>A\<close>
  and the desired set \<open>D\<close> has members, and the active set is now \<open>(A \<inter> D) \<union> (D - A)\<close>.
\<close>

definition issues_symmetric_difference :: "ha \<Rightarrow> string list \<Rightarrow> ha \<Rightarrow> bool" where
  "issues_symmetric_difference s events s' \<longleftrightarrow>
     (let A = set (subscribedEvents s); D = set (currentEvents events)
      in (\<exists>ops. net s' = net s @ ops \<and> length ops = card ((A - D) \<union> (D - A))) \<and>
         set (subscribedEvents s') = (A \<inter> D) \<union> (D - A))"

subsection \<open>The heap\<close>

text \<open>
  No reference dangles: the cache, the registry of services and every property of every
  object refer into the heap.
\<close>

definition val_ok :: "nat \<Rightarrow> jsval \<Rightarrow> bool" where
  "val_ok n v = (case v of JRef a \<Rightarrow> a < n | _ \<Rightarrow> True)"

definition heap_ok :: "ha \<Rightarrow> bool" where
  "heap_ok s \<longleftrightarrow>
     val_ok (length (heap s)) (states s) \<and> val_ok (length (heap s)) (services s) \<and>
     (\<forall>ob \<in> set (heap s). \<forall>p \<in> set ob. val_ok (length (heap s)) (snd p))"

text \<open>
  What a caller can do to an object it was handed, by assignments to and deletions of
  its properties: replace its list of properties.  And what a caller sees of a returned
  value: the properties of the object returned, if one is.
\<close>

definition caller_writes :: "addr \<Rightarrow> obj \<Rightarrow> ha \<Rightarrow> ha" where
  "caller_writes a ob s = s\<lparr>heap := (heap s)[a := ob]\<rparr>"

definition result_props :: "jsval \<times> ha \<Rightarrow> obj option" where
  "result_props p = (case p of (JRef a, s) \<Rightarrow> Some (deref (heap s) a) | _ \<Rightarrow> None)"

subsection \<open>The handshake\<close>

text \<open>
  A socket from which a retry can still come: it has not fired \<open>close\<close>, and \<open>onClose\<close>
  still listens for \<open>close\<close>, or for an \<open>error\<close> that has not been fired.  \<open>one_attempt\<close>
  bounds the pending timers and such sockets together by one; in a \<open>quiescent\<close> state
  there is neither.
\<close>

definition may_retry :: "socket \<Rightarrow> bool" where
  "may_retry k \<longleftrightarrow> \<not> ws_closed k \<and> (close_onClose k \<or> (error_onClose k \<and> \<not> ws_errored k))"

definition one_attempt :: "handshake \<Rightarrow> bool" where
  "one_attempt w \<longleftrightarrow> length (timers w) + length (filter may_retry (sockets w)) \<le> 1"

definition quiescent :: "handshake \<Rightarrow> bool" where
  "quiescent w \<longleftrightarrow> timers w = [] \<and> filter may_retry (sockets w) = []"

text \<open>The timer firing in \<open>w\<close> begins a new attempt, leaving \<open>w'\<close>.\<close>

definition begins_attempt :: "handshake \<Rightarrow> handshake \<Rightarrow> bool" where
  "begins_attempt w w' \<longleftrightarrow>
     sockets w' = sockets w @ [new_WebSocket (config (self w))] \<and> timers w' = [] \<and>
     connectionState (self w') = CONNECTING \<and>
     map topic (emitted (self w')) = map topic (emitted (self w)) @ [''ha_client:connecting'']"

text \<open>\<open>n\<close> attempts in a row, each begun by the timer and ended by the \<open>close\<close> of its socket.\<close>

definition failed_rounds :: "nat \<Rightarrow> hs_event list" where
  "failed_rounds n = concat (map (\<lambda>j. [TimerFires 0, SocketClose j]) [0..<n])"

section \<open>Example objects\<close>

text \<open>
  A connected object without subscriptions, one with three, and one in wildcard mode.
\<close>

definition config_example :: config where
  "config_example =
     \<lparr>baseUrl = ''http://localhost:8123'', legacy = False, apiPass = ''token'',
      rejectUnauthorizedCerts = True, connectionDelay = JUndefined\<rparr>"

definition connected_example :: ha where
  "connected_example =
     (new_HaWebsocket config_example [])\<lparr>client := Some new_client, connectionState := CONNECTED\<rparr>"

definition three_active_example :: ha where
  "three_active_example =
     connected_example
       \<lparr>subscribedEvents := [''lights_on'', ''state_changed'', ''nodered''],
        unsubCallback := [''lights_on'' \<mapsto> EventType ''lights_on'',
                          ''state_changed'' \<mapsto> EventType ''state_changed'',
                          ''nodered'' \<mapsto> EventType ''nodered''],
        net := [SubscribeEvents (EventType ''lights_on''),
                SubscribeEvents (EventType ''state_changed''),
                SubscribeEvents (EventType ''nodered'')]\<rparr>"

definition wildcard_example :: ha where
  "wildcard_example =
     connected_example
       \<lparr>subscribedEvents := [''__ALL__''],
        unsubCallback := [''__ALL__'' \<mapsto> AllEvents],
        net := [SubscribeEvents AllEvents]\<rparr>"

text \<open>
  The objects two runs of calls pass through: no argument, then the wildcard with
  \<open>state_changed\<close>; and the wildcard, then \<open>lights_on\<close>.
\<close>

definition defaults_active_example :: ha where
  "defaults_active_example =
     connected_example
       \<lparr>subscribedEvents := [''state_changed'', ''nodered''],
        unsubCallback := [''state_changed'' \<mapsto> EventType ''state_changed'',
                          ''nodered'' \<mapsto> EventType ''nodered''],
        net := [SubscribeEvents (EventType ''state_changed''),
                SubscribeEvents (EventType ''nodered'')]\<rparr>"

definition wildcard_after_defaults_example :: ha where
  "wildcard_after_defaults_example =
     connected_example
       \<lparr>subscribedEvents := [''__ALL__''],
        unsubCallback := [''__ALL__'' \<mapsto> AllEvents],
        net := [SubscribeEvents (EventType ''state_changed''),
                SubscribeEvents (EventType ''nodered''),
                UnsubscribeEvents (EventType ''state_changed''),
                UnsubscribeEvents (EventType ''nodered''),
                SubscribeEvents AllEvents]\<rparr>"

definition left_wildcard_example :: ha where
  "left_wildcard_example =
     connected_example
       \<lparr>subscribedEvents := [''lights_on'', ''state_changed'', ''nodered''],
        unsubCallback := [''lights_on'' \<mapsto> EventType ''lights_on'',
                          ''state_changed'' \<mapsto> EventType ''state_changed'',
                          ''nodered'' \<mapsto> EventType ''nodered''],
        net := [SubscribeEvents AllEvents,
                UnsubscribeEvents AllEvents,
                SubscribeEvents (EventType ''lights_on''),
                SubscribeEvents (EventType ''state_changed''),
                SubscribeEvents (EventType ''nodered'')]\<rparr>"

text \<open>
  A cache with one entity and one service domain, and the same with a \<open>state_changed\<close>
  frame for that entity in the heap (the frame at address 6).
\<close>

definition cache_example :: ha where
  "cache_example =
     connected_example
       \<lparr>statesLoaded := True, servicesLoaded := True,
        heap := [[(''light.kitchen'', JRef 2)],
                 [(''light'', JRef 4)],
                 [(''state'', JStr ''on''), (''attributes'', JRef 3)],
                 [(''brightness'', JNum 10)],
                 [(''turn_on'', JRef 5)],
                 []]\<rparr>"

definition frame_example :: ha where
  "frame_example =
     cache_example
       \<lparr>heap := heap cache_example @
          [[(''event_type'', JStr ''state_changed''), (''data'', JRef 7)],
           [(''entity_id'', JStr ''light.kitchen''), (''new_state'', JRef 8), (''old_state'', JRef 2)],
           [(''state'', JStr ''off''), (''attributes'', JRef 3)]]\<rparr>"

text \<open>
  The cache after \<open>getStates()\<close> has returned its copy at address 6, and after the
  caller has set \<open>state\<close> on the record of \<open>light.kitchen\<close> reached through that copy;
  the same for \<open>getServices()\<close> and the domain \<open>light\<close>.
\<close>

definition copied_example :: ha where
  "copied_example =
     cache_example\<lparr>heap := heap cache_example @ [[(''light.kitchen'', JRef 2)]]\<rparr>"

definition mutated_example :: ha where
  "mutated_example =
     copied_example
       \<lparr>heap := (heap copied_example)[2 := [(''state'', JStr ''off''), (''attributes'', JRef 3)]]\<rparr>"

definition copied_services_example :: ha where
  "copied_services_example =
     cache_example\<lparr>heap := heap cache_example @ [[(''light'', JRef 4)]]\<rparr>"

definition mutated_services_example :: ha where
  "mutated_services_example =
     copied_services_example
       \<lparr>heap := (heap copied_services_example)[4 := [(''turn_on'', JNull)]]\<rparr>"

text \<open>
  An object whose heap holds three user records (a user who is no admin, one without
  \<open>is_admin\<close>, one whose \<open>is_admin\<close> is \<open>0\<close>); its handshake after the auth frame was sent
  and \<open>auth_required\<close> received; and that handshake after \<open>auth_ok\<close>.
\<close>

definition user_example :: ha where
  "user_example =
     new_HaWebsocket config_example
       [[(''id'', JStr ''u1''), (''is_admin'', JBool False)],
        [(''id'', JStr ''u2'')],
        [(''id'', JStr ''u3''), (''is_admin'', JNum 0)]]"

definition handshake_example :: handshake where
  "handshake_example =
     deliver (SocketMessage 0 (JStr ''auth_required''))
       (deliver (SocketOpen 0 None) (deliver (TimerFires 0) (createSocket user_example)))"

definition authenticated_example :: handshake where
  "authenticated_example = deliver (SocketMessage 0 (JStr ''auth_ok'')) handshake_example"

section \<open>Properties\<close>

subsection \<open>The subscription multiplexer\<close>

lemma set_set_add [simp]: "set (set_add x xs) = insert x (set xs)"
  by (auto simp: set_add_def)

lemma distinct_set_add [simp]: "distinct (set_add x xs) = distinct xs"
  by (auto simp: set_add_def)

lemma foldl_set_add_set: "set (foldl (\<lambda>acc x. set_add x acc) a xs) = set a \<union> set xs"
  by (induction xs arbitrary: a) auto

lemma foldl_set_add_distinct: "distinct a \<Longrightarrow> distinct (foldl (\<lambda>acc x. set_add x acc) a xs)"
  by (induction xs arbitrary: a) auto

lemma foldl_set_add_id:
  "distinct (a @ xs) \<Longrightarrow> foldl (\<lambda>acc x. set_add x acc) a xs = a @ xs"
  by (induction xs arbitrary: a) (auto simp: set_add_def)

lemma set_new_Set [simp]: "set (new_Set xs) = set xs"
  by (simp add: new_Set_def foldl_set_add_set)

lemma distinct_new_Set [simp]: "distinct (new_Set xs)"
  by (simp add: new_Set_def foldl_set_add_distinct)

lemma new_Set_distinct: "distinct xs \<Longrightarrow> new_Set xs = xs"
  using foldl_set_add_id [of "[]" xs] by (simp add: new_Set_def)

lemma distinct_currentEvents [simp]: "distinct (currentEvents events)"
  by (simp add: currentEvents_def)

lemma set_currentEvents:
  "set (currentEvents events) = insert ''nodered'' (insert ''state_changed'' (set events))"
  by (simp add: currentEvents_def)

lemma remove_unused_ok:
  "distinct es \<Longrightarrow> set es \<subseteq> dom (unsubCallback s) \<Longrightarrow>
   remove_unused es s =
     Inr (s\<lparr>unsubCallback := unsubCallback s |` (- set es),
            net := net s @ map (\<lambda>e. UnsubscribeEvents (the (unsubCallback s e))) es\<rparr>)"
proof (induction es arbitrary: s)
  case Nil
  then show ?case by simp
next
  case (Cons e es)
  from Cons.prems obtain u where u: "unsubCallback s e = Some u" by auto
  let ?s1 = "s\<lparr>net := net s @ [UnsubscribeEvents u], unsubCallback := (unsubCallback s)(e := None)\<rparr>"
  have "remove_unused (e # es) s = remove_unused es ?s1"
    by (simp add: call_unsubCallback_def u)
  also have "\<dots> = Inr (?s1\<lparr>unsubCallback := unsubCallback ?s1 |` (- set es),
            net := net ?s1 @ map (\<lambda>e. UnsubscribeEvents (the (unsubCallback ?s1 e))) es\<rparr>)"
    using Cons.prems by (intro Cons.IH) auto
  also have "\<dots> = Inr (s\<lparr>unsubCallback := unsubCallback s |` (- set (e # es)),
            net := net s @ map (\<lambda>e. UnsubscribeEvents (the (unsubCallback s e))) (e # es)\<rparr>)"
    using Cons.prems u by (auto simp: restrict_map_def fun_eq_iff intro!: ha.equality)
  finally show ?case .
qed

lemma subscribe_each_ok:
  "client s \<noteq> None \<Longrightarrow>
   subscribe_each ts s =
     Inr (s\<lparr>unsubCallback := (\<lambda>k. if k \<in> set ts then Some (EventType k) else unsubCallback s k),
            net := net s @ map (\<lambda>t. SubscribeEvents (EventType t)) ts\<rparr>)"
proof (induction ts arbitrary: s)
  case Nil
  then show ?case by simp
next
  case (Cons t ts)
  then obtain c where c: "client s = Some c" by auto
  let ?s1 = "s\<lparr>net := net s @ [SubscribeEvents (EventType t)], unsubCallback := (unsubCallback s)(t \<mapsto> EventType t)\<rparr>"
  have "subscribe_each (t # ts) s = subscribe_each ts ?s1"
    by (simp add: client_subscribeEvents_def c)
  also have "\<dots> = Inr (?s1\<lparr>unsubCallback := (\<lambda>k. if k \<in> set ts then Some (EventType k) else unsubCallback ?s1 k),
            net := net ?s1 @ map (\<lambda>t. SubscribeEvents (EventType t)) ts\<rparr>)"
    by (intro Cons.IH) (simp add: c)
  also have "\<dots> = Inr (s\<lparr>unsubCallback := (\<lambda>k. if k \<in> set (t # ts) then Some (EventType k) else unsubCallback s k),
            net := net s @ map (\<lambda>t. SubscribeEvents (EventType t)) (t # ts)\<rparr>)"
    by (auto simp: fun_eq_iff intro!: ha.equality)
  finally show ?case .
qed

lemma sub_inv_dom: "sub_inv s \<Longrightarrow> dom (unsubCallback s) = set (subscribedEvents s)"
  by (auto simp: sub_inv_def dom_def)

lemma sub_inv_the:
  "sub_inv s \<Longrightarrow> e \<in> set (subscribedEvents s) \<Longrightarrow> the (unsubCallback s e) = target_of e"
  by (simp add: sub_inv_def)

lemma unsubscribe_concrete_ok:
  "distinct es \<Longrightarrow> set es \<subseteq> dom (unsubCallback s) \<Longrightarrow> ''__ALL__'' \<notin> set es \<Longrightarrow>
   unsubscribe_concrete es s =
     Inr (s\<lparr>unsubCallback := unsubCallback s |` (- set es),
            subscribedEvents := filter (\<lambda>x. x \<notin> set es) (subscribedEvents s),
            net := net s @ map (\<lambda>e. UnsubscribeEvents (the (unsubCallback s e))) es\<rparr>)"
proof (induction es arbitrary: s)
  case Nil
  then show ?case by simp
next
  case (Cons e es)
  from Cons.prems obtain u where u: "unsubCallback s e = Some u" by auto
  let ?s1 = "s\<lparr>net := net s @ [UnsubscribeEvents u],
               unsubCallback := (unsubCallback s)(e := None),
               subscribedEvents := set_delete e (subscribedEvents s)\<rparr>"
  have ne: "e \<noteq> ''__ALL__''" using Cons.prems by auto
  have "unsubscribe_concrete (e # es) s = unsubscribe_concrete es ?s1"
    by (simp add: call_unsubCallback_def u ne)
  also have "\<dots> = Inr (?s1\<lparr>unsubCallback := unsubCallback ?s1 |` (- set es),
            subscribedEvents := filter (\<lambda>x. x \<notin> set es) (subscribedEvents ?s1),
            net := net ?s1 @ map (\<lambda>e. UnsubscribeEvents (the (unsubCallback ?s1 e))) es\<rparr>)"
    using Cons.prems by (intro Cons.IH) auto
  also have "\<dots> = Inr (s\<lparr>unsubCallback := unsubCallback s |` (- set (e # es)),
            subscribedEvents := filter (\<lambda>x. x \<notin> set (e # es)) (subscribedEvents s),
            net := net s @ map (\<lambda>e. UnsubscribeEvents (the (unsubCallback s e))) (e # es)\<rparr>)"
    using Cons.prems u
    by (auto simp: restrict_map_def fun_eq_iff set_delete_def removeAll_filter_not_eq
        intro!: ha.equality filter_cong)
  finally show ?case .
qed

lemma subscribeEvents_wildcard:
  assumes "sub_inv s" and "''__ALL__'' \<in> set events" and "''__ALL__'' \<notin> set (subscribedEvents s)"
  shows "subscribeEvents events s =
     Inr (s\<lparr>subscribedEvents := [''__ALL__''],
            unsubCallback := [''__ALL__'' \<mapsto> AllEvents],
            net := net s @ map (\<lambda>e. UnsubscribeEvents (the (unsubCallback s e))) (subscribedEvents s)
                     @ [SubscribeEvents AllEvents]\<rparr>)"
proof -
  from assms(1) obtain c where c: "client s = Some c" by (auto simp: sub_inv_def)
  have d: "distinct (subscribedEvents s)" and dom: "dom (unsubCallback s) = set (subscribedEvents s)"
    using assms(1) sub_inv_dom by (auto simp: sub_inv_def)
  have u: "unsubscribe_concrete (subscribedEvents s) s =
     Inr (s\<lparr>unsubCallback := unsubCallback s |` (- set (subscribedEvents s)),
            subscribedEvents := filter (\<lambda>x. x \<notin> set (subscribedEvents s)) (subscribedEvents s),
            net := net s @ map (\<lambda>e. UnsubscribeEvents (the (unsubCallback s e))) (subscribedEvents s)\<rparr>)"
    using d dom assms(3) by (intro unsubscribe_concrete_ok) auto
  have e1: "filter (\<lambda>x. x \<notin> set (subscribedEvents s)) (subscribedEvents s) = []"
    by (simp add: filter_empty_conv)
  have e2: "unsubCallback s |` (- set (subscribedEvents s)) = Map.empty"
    using dom by (auto simp: restrict_map_def fun_eq_iff domIff)
  show ?thesis
    using assms(2,3)
    by (simp add: subscribeEvents_def u client_subscribeEvents_def c e1 e2 set_add_def)
qed

lemma subscribeEvents_wildcard_active:
  "''__ALL__'' \<in> set events \<Longrightarrow> ''__ALL__'' \<in> set (subscribedEvents s) \<Longrightarrow>
   subscribeEvents events s = Inr s"
  by (simp add: subscribeEvents_def)

lemma subscribeEvents_diff:
  assumes "sub_inv s" and "''__ALL__'' \<notin> set events"
  shows "subscribeEvents events s =
     Inr (s\<lparr>subscribedEvents :=
              filter (\<lambda>x. x \<in> set (subscribedEvents s)) (currentEvents events) @
              filter (\<lambda>x. x \<notin> set (subscribedEvents s)) (currentEvents events),
            unsubCallback :=
              (\<lambda>k. if k \<in> set (currentEvents events) \<and> k \<notin> set (subscribedEvents s)
                   then Some (EventType k)
                   else if k \<in> set (currentEvents events) then unsubCallback s k else None),
            net := net s @
              map (\<lambda>e. UnsubscribeEvents (the (unsubCallback s e)))
                (filter (\<lambda>x. x \<notin> set (currentEvents events)) (subscribedEvents s)) @
              map (\<lambda>t. SubscribeEvents (EventType t))
                (filter (\<lambda>x. x \<notin> set (subscribedEvents s)) (currentEvents events))\<rparr>)"
proof -
  let ?cur = "currentEvents events"
  let ?A = "subscribedEvents s"
  let ?add = "filter (\<lambda>x. x \<notin> set ?A) ?cur"
  let ?rem = "filter (\<lambda>x. x \<notin> set ?cur) ?A"
  let ?keep = "filter (\<lambda>x. x \<in> set ?A) ?cur"
  from assms(1) obtain c where c: "client s = Some c" by (auto simp: sub_inv_def)
  have d: "distinct ?A" and dom: "dom (unsubCallback s) = set ?A"
    using assms(1) sub_inv_dom by (auto simp: sub_inv_def)
  have n1: "new_Set ?add = ?add" by (simp add: new_Set_distinct)
  have n2: "new_Set ?rem = ?rem" using d by (simp add: new_Set_distinct)
  have n3: "new_Set (?keep @ ?add) = ?keep @ ?add"
    by (intro new_Set_distinct) auto
  let ?s1 = "s\<lparr>subscribedEvents := ?keep @ ?add\<rparr>"
  have r: "remove_unused ?rem ?s1 =
     Inr (?s1\<lparr>unsubCallback := unsubCallback ?s1 |` (- set ?rem),
            net := net ?s1 @ map (\<lambda>e. UnsubscribeEvents (the (unsubCallback ?s1 e))) ?rem\<rparr>)"
    using d dom by (intro remove_unused_ok) auto
  let ?s2 = "?s1\<lparr>unsubCallback := unsubCallback ?s1 |` (- set ?rem),
            net := net ?s1 @ map (\<lambda>e. UnsubscribeEvents (the (unsubCallback ?s1 e))) ?rem\<rparr>"
  have a: "subscribe_each ?add ?s2 =
     Inr (?s2\<lparr>unsubCallback := (\<lambda>k. if k \<in> set ?add then Some (EventType k) else unsubCallback ?s2 k),
            net := net ?s2 @ map (\<lambda>t. SubscribeEvents (EventType t)) ?add\<rparr>)"
    by (intro subscribe_each_ok) (simp add: c)
  have "subscribeEvents events s = subscribe_each ?add ?s2"
    using assms(2) by (simp add: subscribeEvents_def Let_def n1 n2 n3 r)
  also note a
  also have "Inr (?s2\<lparr>unsubCallback := (\<lambda>k. if k \<in> set ?add then Some (EventType k) else unsubCallback ?s2 k),
            net := net ?s2 @ map (\<lambda>t. SubscribeEvents (EventType t)) ?add\<rparr>) =
     Inr (s\<lparr>subscribedEvents := ?keep @ ?add,
            unsubCallback :=
              (\<lambda>k. if k \<in> set ?cur \<and> k \<notin> set ?A
                   then Some (EventType k)
                   else if k \<in> set ?cur then unsubCallback s k else None),
            net := net s @ map (\<lambda>e. UnsubscribeEvents (the (unsubCallback s e))) ?rem @
              map (\<lambda>t. SubscribeEvents (EventType t)) ?add\<rparr>)"
    using dom by (auto simp: restrict_map_def fun_eq_iff domIff intro!: ha.equality)
  finally show ?thesis by simp
qed

lemma ALL_notin_currentEvents:
  "''__ALL__'' \<notin> set events \<Longrightarrow> ''__ALL__'' \<notin> set (currentEvents events)"
  by (simp add: set_currentEvents)

lemma sub_inv_diff:
  assumes "sub_inv s" and "''__ALL__'' \<notin> set events" and "subscribeEvents events s = Inr s'"
  shows "sub_inv s'"
proof -
  have s': "s' = s\<lparr>subscribedEvents :=
              filter (\<lambda>x. x \<in> set (subscribedEvents s)) (currentEvents events) @
              filter (\<lambda>x. x \<notin> set (subscribedEvents s)) (currentEvents events),
            unsubCallback :=
              (\<lambda>k. if k \<in> set (currentEvents events) \<and> k \<notin> set (subscribedEvents s)
                   then Some (EventType k)
                   else if k \<in> set (currentEvents events) then unsubCallback s k else None),
            net := net s @
              map (\<lambda>e. UnsubscribeEvents (the (unsubCallback s e)))
                (filter (\<lambda>x. x \<notin> set (currentEvents events)) (subscribedEvents s)) @
              map (\<lambda>t. SubscribeEvents (EventType t))
                (filter (\<lambda>x. x \<notin> set (subscribedEvents s)) (currentEvents events))\<rparr>"
    using subscribeEvents_diff [OF assms(1,2)] assms(3) by simp
  have na: "''__ALL__'' \<notin> set (currentEvents events)"
    using assms(2) by (rule ALL_notin_currentEvents)
  have cb: "unsubCallback s = (\<lambda>e. if e \<in> set (subscribedEvents s) then Some (target_of e) else None)"
    and cl: "client s \<noteq> None"
    using assms(1) by (auto simp: sub_inv_def)
  have "distinct (subscribedEvents s')" by (auto simp: s')
  moreover have "client s' \<noteq> None" using cl by (simp add: s')
  moreover have "unsubCallback s' = (\<lambda>e. if e \<in> set (subscribedEvents s') then Some (target_of e) else None)"
  proof
    fix e
    have cbe: "unsubCallback s e = (if e \<in> set (subscribedEvents s) then Some (target_of e) else None)"
      by (subst cb) simp
    have sub: "set (subscribedEvents s') = set (currentEvents events)"
      by (auto simp: s')
    have cb': "unsubCallback s' e =
        (if e \<in> set (currentEvents events) \<and> e \<notin> set (subscribedEvents s)
         then Some (EventType e)
         else if e \<in> set (currentEvents events) then unsubCallback s e else None)"
      by (simp add: s')
    show "unsubCallback s' e = (if e \<in> set (subscribedEvents s') then Some (target_of e) else None)"
      unfolding sub cb' cbe using na by (auto simp: target_of_def)
  qed
  ultimately show ?thesis by (simp add: sub_inv_def)
qed

lemma issues_diff:
  assumes "sub_inv s" and "''__ALL__'' \<notin> set events" and "subscribeEvents events s = Inr s'"
  shows "issues_symmetric_difference s events s'"
proof -
  let ?A = "subscribedEvents s" and ?cur = "currentEvents events"
  let ?rem = "filter (\<lambda>x. x \<notin> set ?cur) ?A" and ?add = "filter (\<lambda>x. x \<notin> set ?A) ?cur"
  let ?ops = "map (\<lambda>e. UnsubscribeEvents (the (unsubCallback s e))) ?rem @
              map (\<lambda>t. SubscribeEvents (EventType t)) ?add"
  have d: "distinct ?A" using assms(1) by (simp add: sub_inv_def)
  have n: "net s' = net s @ ?ops" and sub: "set (subscribedEvents s') = set ?cur"
    using subscribeEvents_diff [OF assms(1,2)] assms(3) by auto
  have "card (set ?A - set ?cur) = length ?rem"
    using d distinct_card [of ?rem] by (simp add: set_diff_eq)
  moreover have "card (set ?cur - set ?A) = length ?add"
    using distinct_card [of ?add] by (simp add: set_diff_eq)
  moreover have "card ((set ?A - set ?cur) \<union> (set ?cur - set ?A)) =
      card (set ?A - set ?cur) + card (set ?cur - set ?A)"
    by (intro card_Un_disjoint) auto
  ultimately have "length ?ops = card ((set ?A - set ?cur) \<union> (set ?cur - set ?A))"
    by simp
  with n sub show ?thesis
    unfolding issues_symmetric_difference_def Let_def by blast
qed

lemma sub_inv_wildcard:
  assumes "sub_inv s" and "''__ALL__'' \<in> set events" and "subscribeEvents events s = Inr s'"
  shows "sub_inv s'"
proof (cases "''__ALL__'' \<in> set (subscribedEvents s)")
  case True
  then show ?thesis using assms by (simp add: subscribeEvents_wildcard_active)
next
  case False
  have cl: "client s \<noteq> None" using assms(1) by (simp add: sub_inv_def)
  show ?thesis
    using subscribeEvents_wildcard [OF assms(1,2) False] assms(3) cl
    by (auto simp: sub_inv_def target_of_def fun_eq_iff)
qed

lemma subscribeEvents_returns:
  assumes "sub_inv s"
  shows "\<exists>s'. subscribeEvents events s = Inr s'"
proof (cases "''__ALL__'' \<in> set events")
  case True
  then show ?thesis
    using subscribeEvents_wildcard [OF assms True] subscribeEvents_wildcard_active [OF True]
    by (cases "''__ALL__'' \<in> set (subscribedEvents s)") auto
next
  case False
  then show ?thesis using subscribeEvents_diff [OF assms False] by simp
qed

lemma sub_inv_subscribeEvents:
  "sub_inv s \<Longrightarrow> subscribeEvents events s = Inr s' \<Longrightarrow> sub_inv s'"
  using sub_inv_diff sub_inv_wildcard by blast

text \<open>
  Claim C1, as amended.  Take any sequence of calls of \<open>subscribeEvents\<close> on an object
  whose registry of callbacks matches its active set and whose client is connected
  (\<open>sub_inv\<close>).  Every call returns, and every call whose desired set does not hold the
  wildcard \<open>__ALL__\<close> sends exactly as many subscribe and unsubscribe commands as the
  symmetric difference of the set active before it and the desired set with
  \<open>state_changed\<close> and \<open>nodered\<close> added has members; the set active after it is
  \<open>(active \<inter> desired) \<union> (desired - active)\<close>.
\<close>

theorem subscribeEvents_minimal_diff:
  assumes "sub_inv s"
  shows "\<exists>ss. subscribe_run evs s = Inr ss \<and> length ss = length evs \<and>
     (\<forall>i<length evs. ''__ALL__'' \<notin> set (evs ! i) \<longrightarrow>
        issues_symmetric_difference ((s # ss) ! i) (evs ! i) (ss ! i))"
  using assms
proof (induction evs arbitrary: s)
  case Nil
  then show ?case by simp
next
  case (Cons ev evs)
  from subscribeEvents_returns [OF Cons.prems]
  obtain s1 where s1: "subscribeEvents ev s = Inr s1" by blast
  have inv1: "sub_inv s1" using Cons.prems s1 by (rule sub_inv_subscribeEvents)
  from Cons.IH [OF inv1] obtain ss where
    run: "subscribe_run evs s1 = Inr ss" and len: "length ss = length evs" and
    rest: "\<forall>i<length evs. ''__ALL__'' \<notin> set (evs ! i) \<longrightarrow>
        issues_symmetric_difference ((s1 # ss) ! i) (evs ! i) (ss ! i)"
    by blast
  have "\<forall>i<length (ev # evs). ''__ALL__'' \<notin> set ((ev # evs) ! i) \<longrightarrow>
        issues_symmetric_difference ((s # s1 # ss) ! i) ((ev # evs) ! i) ((s1 # ss) ! i)"
  proof (intro allI impI)
    fix i
    assume i: "i < length (ev # evs)" and na: "''__ALL__'' \<notin> set ((ev # evs) ! i)"
    show "issues_symmetric_difference ((s # s1 # ss) ! i) ((ev # evs) ! i) ((s1 # ss) ! i)"
    proof (cases i)
      case 0
      then show ?thesis using issues_diff [OF Cons.prems _ s1] na by simp
    next
      case (Suc j)
      then show ?thesis using rest i na by simp
    qed
  qed
  then show ?case using s1 run len by simp
qed

lemmas subscribe_eval =
  subscribeEvents_def new_Set_def set_add_def set_delete_def currentEvents_def
  client_subscribeEvents_def call_unsubCallback_def Let_def

lemma sub_inv_connected_example: "sub_inv connected_example"
  by (simp add: sub_inv_def connected_example_def new_HaWebsocket_def)

lemma run_defaults_then_wildcard:
  "subscribe_run [[], [''__ALL__'', ''state_changed'']] connected_example =
     Inr [defaults_active_example, wildcard_after_defaults_example]"
  by (simp add: subscribe_eval defaults_active_example_def wildcard_after_defaults_example_def
      connected_example_def new_HaWebsocket_def fun_upd_twist)

text \<open>The theorem of C1 at two calls on a freshly connected object.\<close>

theorem subscribeEvents_minimal_diff_witness:
  "sub_inv connected_example \<and>
   (\<exists>ss. subscribe_run [[''lights_on''], [''lights_off'', ''lights_on'']] connected_example = Inr ss \<and>
      issues_symmetric_difference connected_example [''lights_on''] (ss ! 0) \<and>
      issues_symmetric_difference (ss ! 0) [''lights_off'', ''lights_on''] (ss ! 1))"
proof -
  let ?evs = "[[''lights_on''], [''lights_off'', ''lights_on'']]"
  from subscribeEvents_minimal_diff [OF sub_inv_connected_example, of ?evs]
  obtain ss where run: "subscribe_run ?evs connected_example = Inr ss"
    and len: "length ss = length ?evs"
    and each: "\<forall>i<length ?evs. ''__ALL__'' \<notin> set (?evs ! i) \<longrightarrow>
        issues_symmetric_difference ((connected_example # ss) ! i) (?evs ! i) (ss ! i)"
    by blast
  from each have "issues_symmetric_difference connected_example [''lights_on''] (ss ! 0)"
    by (elim allE [of _ 0]) simp
  moreover from each have "issues_symmetric_difference (ss ! 0) [''lights_off'', ''lights_on''] (ss ! 1)"
    by (elim allE [of _ 1]) simp
  ultimately show ?thesis using run sub_inv_connected_example by blast
qed

text \<open>
  Claim C1 as stated fails for a desired set with the wildcard: with \<open>state_changed\<close> and
  \<open>nodered\<close> active, asking for \<open>__ALL__\<close> and \<open>state_changed\<close> sends three commands
  (two unsubscribe, one subscribe) where the symmetric difference has one member, and
  the active set afterwards is the wildcard alone.
\<close>

theorem subscribeEvents_minimal_diff_counterexample:
  "subscribe_run [[], [''__ALL__'', ''state_changed'']] connected_example =
     Inr [defaults_active_example, wildcard_after_defaults_example] \<and>
   subscribedEvents defaults_active_example = [''state_changed'', ''nodered''] \<and>
   net wildcard_after_defaults_example =
     net defaults_active_example @
       [UnsubscribeEvents (EventType ''state_changed''),
        UnsubscribeEvents (EventType ''nodered''),
        SubscribeEvents AllEvents] \<and>
   card ((set (subscribedEvents defaults_active_example) -
            set (currentEvents [''__ALL__'', ''state_changed''])) \<union>
         (set (currentEvents [''__ALL__'', ''state_changed'']) -
            set (subscribedEvents defaults_active_example))) = 1 \<and>
   subscribedEvents wildcard_after_defaults_example = [''__ALL__''] \<and>
   \<not> issues_symmetric_difference defaults_active_example [''__ALL__'', ''state_changed'']
       wildcard_after_defaults_example"
proof -
  have c: "currentEvents [''__ALL__'', ''state_changed''] = [''__ALL__'', ''state_changed'', ''nodered'']"
    by (simp add: currentEvents_def new_Set_def set_add_def)
  have d: "({''state_changed'', ''nodered''} - {''__ALL__'', ''state_changed'', ''nodered''}) \<union>
           ({''__ALL__'', ''state_changed'', ''nodered''} - {''state_changed'', ''nodered''}) = {''__ALL__''}"
    by auto
  have "subscribedEvents defaults_active_example = [''state_changed'', ''nodered'']"
    "net wildcard_after_defaults_example =
     net defaults_active_example @
       [UnsubscribeEvents (EventType ''state_changed''),
        UnsubscribeEvents (EventType ''nodered''),
        SubscribeEvents AllEvents]"
    "subscribedEvents wildcard_after_defaults_example = [''__ALL__'']"
    by (simp_all add: defaults_active_example_def wildcard_after_defaults_example_def)
  then show ?thesis
    using run_defaults_then_wildcard
    by (simp add: c d issues_symmetric_difference_def del: subscribe_run.simps)
qed

lemma subscribeEvents_wildcard_member:
  assumes "sub_inv s" and "''__ALL__'' \<in> set events" and "subscribeEvents events s = Inr s'"
  shows "''__ALL__'' \<in> set (subscribedEvents s')"
proof (cases "''__ALL__'' \<in> set (subscribedEvents s)")
  case True
  then show ?thesis using assms by (simp add: subscribeEvents_wildcard_active)
next
  case False
  show ?thesis using subscribeEvents_wildcard [OF assms(1,2) False] assms(3) by auto
qed

lemma subscribeEvents_again:
  assumes "sub_inv s" and "subscribeEvents events s = Inr s1"
  shows "\<exists>s2. subscribeEvents events s1 = Inr s2 \<and> net s2 = net s1 \<and>
     set (subscribedEvents s2) = set (subscribedEvents s1) \<and> unsubCallback s2 = unsubCallback s1"
proof (cases "''__ALL__'' \<in> set events")
  case True
  have "''__ALL__'' \<in> set (subscribedEvents s1)"
    by (rule subscribeEvents_wildcard_member [OF assms(1) True assms(2)])
  then show ?thesis using True by (simp add: subscribeEvents_wildcard_active)
next
  case False
  have inv1: "sub_inv s1" using assms by (rule sub_inv_subscribeEvents)
  have sub1: "set (subscribedEvents s1) = set (currentEvents events)"
    using subscribeEvents_diff [OF assms(1) False] assms(2) by auto
  have cb1: "unsubCallback s1 = (\<lambda>e. if e \<in> set (currentEvents events) then Some (target_of e) else None)"
    using inv1 by (simp add: sub_inv_def sub1)
  have e1: "filter (\<lambda>x. x \<notin> set (currentEvents events)) (subscribedEvents s1) = []"
    and e2: "filter (\<lambda>x. x \<notin> set (subscribedEvents s1)) (currentEvents events) = []"
    using sub1 by (auto simp: filter_empty_conv)
  have cb3: "(\<lambda>k. if k \<in> set (currentEvents events) then unsubCallback s1 k else None)
             = unsubCallback s1"
    by (auto simp: cb1 fun_eq_iff)
  show ?thesis
    by (simp add: subscribeEvents_diff [OF inv1 False] e1 e2 cb3 sub1)
qed

text \<open>
  Claim C2.  On an object that satisfies \<open>sub_inv\<close>, a call of \<open>subscribeEvents\<close> returns,
  and a second call with the same argument returns too, sends no command, and leaves
  the members of the active set and the registry of callbacks as the first call left
  them.  (The second call may reorder the set's insertion order.)
\<close>

theorem subscribeEvents_idempotent:
  assumes "sub_inv s"
  shows "\<exists>s1 s2. subscribeEvents events s = Inr s1 \<and> subscribeEvents events s1 = Inr s2 \<and>
     net s2 = net s1 \<and> set (subscribedEvents s2) = set (subscribedEvents s1) \<and>
     unsubCallback s2 = unsubCallback s1"
proof -
  from subscribeEvents_returns [OF assms]
  obtain s1 where s1: "subscribeEvents events s = Inr s1" by blast
  from subscribeEvents_again [OF assms s1] s1 show ?thesis by blast
qed

text \<open>The theorem of C2 at the desired set \<open>lights_on\<close> on a freshly connected object.\<close>

theorem subscribeEvents_idempotent_witness:
  "sub_inv connected_example \<and>
   (\<exists>s1 s2. subscribeEvents [''lights_on''] connected_example = Inr s1 \<and>
      subscribeEvents [''lights_on''] s1 = Inr s2 \<and> net s2 = net s1 \<and>
      net s1 = [SubscribeEvents (EventType ''lights_on''),
                SubscribeEvents (EventType ''state_changed''),
                SubscribeEvents (EventType ''nodered'')])"
proof -
  from subscribeEvents_idempotent [OF sub_inv_connected_example, of "[''lights_on'']"]
  obtain s1 s2 where a: "subscribeEvents [''lights_on''] connected_example = Inr s1"
    and b: "subscribeEvents [''lights_on''] s1 = Inr s2" and c: "net s2 = net s1"
    by blast
  from a have "net s1 = [SubscribeEvents (EventType ''lights_on''),
                SubscribeEvents (EventType ''state_changed''),
                SubscribeEvents (EventType ''nodered'')]"
    by (auto simp: subscribe_eval connected_example_def new_HaWebsocket_def)
  with a b c sub_inv_connected_example show ?thesis by blast
qed

lemma run_wildcard_then_lights:
  "subscribe_run [[''__ALL__''], [''lights_on'']] connected_example =
     Inr [wildcard_example, left_wildcard_example]"
  by (simp add: subscribe_eval wildcard_example_def left_wildcard_example_def
      connected_example_def new_HaWebsocket_def fun_upd_twist)

text \<open>
  Claim C3 as stated fails in its last part: after \<open>__ALL__\<close>, asking for \<open>lights_on\<close>
  sends four commands, one unsubscribe of the wildcard and three subscribes, not three.
\<close>

theorem leaving_wildcard_counterexample:
  "subscribe_run [[''__ALL__''], [''lights_on'']] connected_example =
     Inr [wildcard_example, left_wildcard_example] \<and>
   net wildcard_example = [SubscribeEvents AllEvents] \<and>
   net left_wildcard_example =
     net wildcard_example @
       [UnsubscribeEvents AllEvents,
        SubscribeEvents (EventType ''lights_on''),
        SubscribeEvents (EventType ''state_changed''),
        SubscribeEvents (EventType ''nodered'')] \<and>
   length (net left_wildcard_example) - length (net wildcard_example) = 4 \<and>
   length (net left_wildcard_example) - length (net wildcard_example) \<noteq> 3"
  using run_wildcard_then_lights
  by (simp add: wildcard_example_def left_wildcard_example_def del: subscribe_run.simps)

text \<open>
  Claim C3, as amended.  When the desired set holds the wildcard and the wildcard is not
  active, every active subscription is unsubscribed, in the set's order, then the
  wildcard is subscribed once and is the only member of the active set and of the
  registry.  When the wildcard is already active the call changes nothing.  Leaving the
  wildcard for \<open>lights_on\<close> unsubscribes the wildcard and subscribes to \<open>lights_on\<close>,
  \<open>state_changed\<close> and \<open>nodered\<close>: four commands.
\<close>

theorem subscribeEvents_wildcard_rule:
  "(sub_inv s \<and> ''__ALL__'' \<in> set events \<and> ''__ALL__'' \<notin> set (subscribedEvents s) \<longrightarrow>
      (\<exists>s'. subscribeEvents events s = Inr s' \<and>
         net s' = net s @ map (\<lambda>e. UnsubscribeEvents (EventType e)) (subscribedEvents s) @
                    [SubscribeEvents AllEvents] \<and>
         subscribedEvents s' = [''__ALL__''] \<and>
         unsubCallback s' = [''__ALL__'' \<mapsto> AllEvents])) \<and>
   (''__ALL__'' \<in> set events \<and> ''__ALL__'' \<in> set (subscribedEvents s) \<longrightarrow>
      subscribeEvents events s = Inr s) \<and>
   subscribe_run [[''__ALL__''], [''lights_on'']] connected_example =
     Inr [wildcard_example, left_wildcard_example] \<and>
   subscribedEvents wildcard_example = [''__ALL__''] \<and>
   net wildcard_example = [SubscribeEvents AllEvents] \<and>
   net left_wildcard_example =
     net wildcard_example @
       [UnsubscribeEvents AllEvents,
        SubscribeEvents (EventType ''lights_on''),
        SubscribeEvents (EventType ''state_changed''),
        SubscribeEvents (EventType ''nodered'')] \<and>
   subscribedEvents left_wildcard_example = [''lights_on'', ''state_changed'', ''nodered'']"
proof (intro conjI impI)
  assume a: "sub_inv s \<and> ''__ALL__'' \<in> set events \<and> ''__ALL__'' \<notin> set (subscribedEvents s)"
  then have inv: "sub_inv s" and w: "''__ALL__'' \<in> set events"
    and n: "''__ALL__'' \<notin> set (subscribedEvents s)" by auto
  have m: "map (\<lambda>e. UnsubscribeEvents (the (unsubCallback s e))) (subscribedEvents s) =
           map (\<lambda>e. UnsubscribeEvents (EventType e)) (subscribedEvents s)"
  proof (rule map_cong [OF refl])
    fix e assume e: "e \<in> set (subscribedEvents s)"
    then have "e \<noteq> ''__ALL__''" using n by auto
    then show "UnsubscribeEvents (the (unsubCallback s e)) = UnsubscribeEvents (EventType e)"
      using sub_inv_the [OF inv e] by (simp add: target_of_def)
  qed
  show "\<exists>s'. subscribeEvents events s = Inr s' \<and>
         net s' = net s @ map (\<lambda>e. UnsubscribeEvents (EventType e)) (subscribedEvents s) @
                    [SubscribeEvents AllEvents] \<and>
         subscribedEvents s' = [''__ALL__''] \<and>
         unsubCallback s' = [''__ALL__'' \<mapsto> AllEvents]"
    by (simp add: subscribeEvents_wildcard [OF inv w n] m)
next
  assume "''__ALL__'' \<in> set events \<and> ''__ALL__'' \<in> set (subscribedEvents s)"
  then show "subscribeEvents events s = Inr s"
    by (simp add: subscribeEvents_wildcard_active)
next
  show "subscribe_run [[''__ALL__''], [''lights_on'']] connected_example =
     Inr [wildcard_example, left_wildcard_example]"
    by (rule run_wildcard_then_lights)
next
  show "subscribedEvents wildcard_example = [''__ALL__'']"
    by (simp add: wildcard_example_def)
next
  show "net wildcard_example = [SubscribeEvents AllEvents]"
    by (simp add: wildcard_example_def)
next
  show "net left_wildcard_example =
     net wildcard_example @
       [UnsubscribeEvents AllEvents,
        SubscribeEvents (EventType ''lights_on''),
        SubscribeEvents (EventType ''state_changed''),
        SubscribeEvents (EventType ''nodered'')]"
    by (simp add: wildcard_example_def left_wildcard_example_def)
next
  show "subscribedEvents left_wildcard_example = [''lights_on'', ''state_changed'', ''nodered'']"
    by (simp add: left_wildcard_example_def)
qed

lemma sub_inv_three_active_example: "sub_inv three_active_example"
  by (auto simp: sub_inv_def three_active_example_def connected_example_def
      new_HaWebsocket_def target_of_def fun_eq_iff)

text \<open>The theorem of C3 at an object with three active subscriptions, and at one in wildcard mode.\<close>

theorem subscribeEvents_wildcard_rule_witness:
  "(sub_inv three_active_example \<and> ''__ALL__'' \<in> set [''__ALL__'', ''lights_on''] \<and>
    ''__ALL__'' \<notin> set (subscribedEvents three_active_example) \<and>
    (\<exists>s'. subscribeEvents [''__ALL__'', ''lights_on''] three_active_example = Inr s' \<and>
       net s' = net three_active_example @
         [UnsubscribeEvents (EventType ''lights_on''),
          UnsubscribeEvents (EventType ''state_changed''),
          UnsubscribeEvents (EventType ''nodered''),
          SubscribeEvents AllEvents] \<and>
       subscribedEvents s' = [''__ALL__''])) \<and>
   (''__ALL__'' \<in> set [''__ALL__'', ''lights_on''] \<and>
    ''__ALL__'' \<in> set (subscribedEvents wildcard_example) \<and>
    subscribeEvents [''__ALL__'', ''lights_on''] wildcard_example = Inr wildcard_example)"
proof -
  have n: "''__ALL__'' \<notin> set (subscribedEvents three_active_example)"
    and l: "subscribedEvents three_active_example = [''lights_on'', ''state_changed'', ''nodered'']"
    by (simp_all add: three_active_example_def)
  have w: "''__ALL__'' \<in> set (subscribedEvents wildcard_example)"
    by (simp add: wildcard_example_def)
  have m: "''__ALL__'' \<in> set [''__ALL__'', ''lights_on'']" by simp
  note r1 = subscribeEvents_wildcard_rule [of three_active_example "[''__ALL__'', ''lights_on'']",
      THEN conjunct1, rule_format, OF conjI [OF sub_inv_three_active_example conjI [OF m n]]]
  then have a: "\<exists>s'. subscribeEvents [''__ALL__'', ''lights_on''] three_active_example = Inr s' \<and>
       net s' = net three_active_example @
         [UnsubscribeEvents (EventType ''lights_on''),
          UnsubscribeEvents (EventType ''state_changed''),
          UnsubscribeEvents (EventType ''nodered''),
          SubscribeEvents AllEvents] \<and>
       subscribedEvents s' = [''__ALL__'']"
    unfolding l by auto
  note r2 = subscribeEvents_wildcard_rule [of wildcard_example "[''__ALL__'', ''lights_on'']",
      THEN conjunct2, THEN conjunct1, rule_format, OF conjI [OF m w]]
  then have b: "subscribeEvents [''__ALL__'', ''lights_on''] wildcard_example = Inr wildcard_example" .
  show ?thesis using a b n w sub_inv_three_active_example by simp
qed

subsection \<open>The heap, the snapshot cache and the dispatcher\<close>

declare show_nat.simps [simp del]

lemma deref_append [simp]: "a < length h \<Longrightarrow> deref (h @ xs) a = deref h a"
  by (simp add: deref_def nth_append)

lemma deref_append_new [simp]: "deref (h @ [ob]) (length h) = ob"
  by (simp add: deref_def)

lemma deref_update_same [simp]: "a < length h \<Longrightarrow> deref (h[a := ob]) a = ob"
  by (simp add: deref_def)

lemma deref_update_other [simp]: "a \<noteq> b \<Longrightarrow> deref (h[a := ob]) b = deref h b"
  by (simp add: deref_def)

lemma map_of_obj_set [simp]:
  "map_of (obj_set k v ob) k' = (if k' = k then Some v else map_of ob k')"
  by (induction ob) auto

lemma heap_onClientStates [simp]: "heap (onClientStates m s) = heap s"
  by (simp add: onClientStates_def emit_def Let_def)

lemma heap_onClientServices [simp]: "heap (onClientServices m s) = heap s"
  by (simp add: onClientServices_def emit_def Let_def)

lemma onClientStates_empty:
  "\<not> truthy msg \<or> own_props (heap s) msg = [] \<Longrightarrow> onClientStates msg s = s"
  by (auto simp: onClientStates_def)

lemma onClientServices_empty:
  "\<not> truthy msg \<or> own_props (heap s) msg = [] \<Longrightarrow> onClientServices msg s = s"
  by (auto simp: onClientServices_def)

text \<open>
  Claim C9.  A bulk payload that is missing (\<open>undefined\<close>, \<open>null\<close> or any other falsy value)
  or has no property leaves the object as it is, for states and for services: nothing is
  stored and nothing is emitted.  In particular, applied after any earlier payload \<open>m0\<close>,
  it leaves the snapshot and the list of emissions as that payload left them.
\<close>

theorem empty_bulk_payload_noop:
  assumes "\<not> truthy msg \<or> own_props (heap s) msg = []"
  shows "onClientStates msg s = s \<and> onClientServices msg s = s \<and>
         onClientStates msg (onClientStates m0 s) = onClientStates m0 s \<and>
         onClientServices msg (onClientServices m0 s) = onClientServices m0 s"
proof -
  have a: "\<not> truthy msg \<or> own_props (heap (onClientStates m0 s)) msg = []"
    and b: "\<not> truthy msg \<or> own_props (heap (onClientServices m0 s)) msg = []"
    using assms by simp_all
  show ?thesis
    using onClientStates_empty [OF assms] onClientServices_empty [OF assms]
      onClientStates_empty [OF a] onClientServices_empty [OF b]
    by simp
qed

text \<open>The theorem of C9 at a missing payload and at an empty object, after a bulk load.\<close>

theorem empty_bulk_payload_noop_witness:
  "truthy JUndefined = False \<and>
   onClientStates JUndefined (onClientStates (JRef 4) cache_example) =
     onClientStates (JRef 4) cache_example \<and>
   own_props (heap cache_example) (JRef 5) = [] \<and>
   onClientStates (JRef 5) (onClientStates (JRef 4) cache_example) =
     onClientStates (JRef 4) cache_example \<and>
   states (onClientStates (JRef 4) cache_example) = JRef 4"
proof -
  have u: "\<not> truthy JUndefined \<or> own_props (heap cache_example) JUndefined = []" by simp
  have e: "own_props (heap cache_example) (JRef 5) = []"
    by (simp add: cache_example_def deref_def)
  then have e': "\<not> truthy (JRef 5) \<or> own_props (heap cache_example) (JRef 5) = []" by simp
  have st: "states (onClientStates (JRef 4) cache_example) = JRef 4"
    by (simp add: onClientStates_def cache_example_def deref_def Let_def)
  from empty_bulk_payload_noop [OF u, of "JRef 4"] empty_bulk_payload_noop [OF e', of "JRef 4"] u e st
  show ?thesis by simp
qed

lemma get_prop_JRef_in_heap:
  "get_prop h (JRef a) k = v \<Longrightarrow> v \<noteq> JUndefined \<Longrightarrow> a < length h"
  by (auto simp: deref_def split: if_splits)

lemma get_prop_JRef_append [simp]:
  "a < length h \<Longrightarrow> get_prop (h @ xs) (JRef a) k = get_prop h (JRef a) k"
  by simp

lemma get_prop_update_same [simp]:
  "c < length h \<Longrightarrow> get_prop (h[c := obj_set k v ob]) (JRef c) k = v"
  by simp

lemma get_prop_update_other [simp]:
  "c \<noteq> a \<Longrightarrow> get_prop (h[c := ob]) (JRef a) k = get_prop h (JRef a) k"
  by simp

lemma getStates_entity:
  assumes "e \<noteq> []" and "get_prop (heap s) (states s) e = v" and "truthy v"
  shows "getStates (JStr e) s = (JRef (length (heap s)), s\<lparr>heap := heap s @ [own_props (heap s) v]\<rparr>)"
  using assms by (simp add: getStates_def alloc_def)

text \<open>
  Claim C8.  Take a frame \<open>m\<close> of type \<open>state_changed\<close> whose data carries a non-empty
  entity id \<open>e\<close> and a truthy new state \<open>v\<close>, and a cache that is an object.  Then
  \<open>onClientEvents\<close> returns, it publishes exactly three emissions, the last of them on
  \<open>ha_events:all\<close>, and at each of them the cache already holds \<open>v\<close> under \<open>e\<close>; afterwards
  \<open>getStates\<close> for \<open>e\<close> returns a copy of \<open>v\<close>.
\<close>

theorem state_changed_cache_before_publish:
  assumes ev: "get_prop (heap s) (JRef m) ''event_type'' = JStr ''state_changed''"
    and da: "get_prop (heap s) (JRef m) ''data'' = JRef d"
    and en: "get_prop (heap s) (JRef d) ''entity_id'' = JStr e" and ne: "e \<noteq> []"
    and nv: "get_prop (heap s) (JRef d) ''new_state'' = v" and tv: "truthy v"
    and st: "states s = JRef c" and c: "c < length (heap s)"
  shows "\<exists>s' ems. onClientEvents (JRef m) s = Inr s' \<and>
     emitted s' = emitted s @ ems \<and>
     map topic ems =
       [''ha_events:'' @ to_key (get_prop (heap s') (JRef m) ''event_type''),
        ''ha_events:'' @ to_key (get_prop (heap s') (JRef m) ''event_type'') @ '':'' @ e,
        ''ha_events:all''] \<and>
     (m \<noteq> c \<longrightarrow> map topic ems =
        [''ha_events:state_changed'', ''ha_events:state_changed:'' @ e, ''ha_events:all'']) \<and>
     (\<forall>em \<in> set ems. get_prop (seen_heap em) (seen_states em) e = v) \<and>
     get_prop (heap s') (states s') e = v \<and>
     result_props (getStates (JStr e) s') = Some (own_props (heap s') v)"
proof -
  let ?h = "heap s"
  let ?n = "length ?h"
  let ?env = "[(''event_type'', JStr ''state_changed''), (''entity_id'', JStr e), (''event'', JRef d)]"
  let ?h1 = "?h @ [?env]"
  let ?h2 = "?h1[c := obj_set e v (deref ?h1 c)]"
  let ?s2 = "s\<lparr>heap := ?h2\<rparr>"
  have m: "m < ?n" using get_prop_JRef_in_heap [OF ev] by simp
  have d: "d < ?n" using get_prop_JRef_in_heap [OF en] by simp
  have cn: "c \<noteq> ?n" and c1: "c < length ?h1" using c by simp_all
  have nv1: "get_prop ?h1 (JRef d) ''new_state'' = v" using nv d by simp
  have envp: "get_prop ?h2 (JRef ?n) ''event_type'' = JStr ''state_changed''"
    "get_prop ?h2 (JRef ?n) ''entity_id'' = JStr e"
    using cn by simp_all
  have cache: "get_prop ?h2 (JRef c) e = v" using c1 by simp
  let ?t = "to_key (get_prop ?h2 (JRef m) ''event_type'')"
  let ?ems = "[\<lparr>topic = ''ha_events:'' @ ?t, args = [JRef ?n], seen_states = JRef c, seen_heap = ?h2\<rparr>,
               \<lparr>topic = ''ha_events:'' @ ?t @ '':'' @ e, args = [JRef ?n], seen_states = JRef c, seen_heap = ?h2\<rparr>,
               \<lparr>topic = ''ha_events:all'', args = [JRef ?n], seen_states = JRef c, seen_heap = ?h2\<rparr>]"
  let ?s' = "?s2\<lparr>emitted := emitted s @ ?ems\<rparr>"
  have pub: "publish (JRef m) (JRef ?n) ?s2 = ?s'"
    using envp ne st by (simp add: publish_def emit_def Let_def)
  have run: "onClientEvents (JRef m) s = Inr ?s'"
    using ev da en ne nv1 tv st pub
    by (simp add: onClientEvents_def alloc_def set_prop_def Let_def)
  have g: "getStates (JStr e) ?s' = (JRef (length ?h2), ?s'\<lparr>heap := ?h2 @ [own_props ?h2 v]\<rparr>)"
    using getStates_entity [of e ?s' v] ne cache tv st by simp
  have "deref (?h2 @ [own_props ?h2 v]) (length ?h2) = own_props ?h2 v"
    by (simp only: deref_append_new)
  with g have gs: "result_props (getStates (JStr e) ?s') = Some (own_props (heap ?s') v)"
    by (simp add: result_props_def)
  have p1: "emitted ?s' = emitted s @ ?ems" by simp
  have p2: "map topic ?ems =
       [''ha_events:'' @ to_key (get_prop (heap ?s') (JRef m) ''event_type''),
        ''ha_events:'' @ to_key (get_prop (heap ?s') (JRef m) ''event_type'') @ '':'' @ e,
        ''ha_events:all'']" by simp
  have p5: "m \<noteq> c \<longrightarrow> map topic ?ems =
        [''ha_events:state_changed'', ''ha_events:state_changed:'' @ e, ''ha_events:all'']"
    using ev m by simp
  have p3: "\<forall>em \<in> set ?ems. get_prop (seen_heap em) (seen_states em) e = v"
    using cache by simp
  have p4: "get_prop (heap ?s') (states ?s') e = v" using cache st by simp
  show ?thesis
    apply (rule exI [of _ ?s'])
    apply (rule exI [of _ ?ems])
    apply (intro conjI)
         apply (rule run)
        apply (rule p1)
        apply (rule p2)
       apply (rule p5)
      apply (rule p3)
     apply (rule p4)
    apply (rule gs)
    done
qed

lemma val_ok_own_props:
  "val_ok (length h) v \<Longrightarrow> own_props (h @ xs) v = own_props h v"
  by (cases v) (simp_all add: val_ok_def)

lemma val_ok_get_prop:
  assumes "heap_ok s"
  shows "val_ok (length (heap s)) (get_prop (heap s) (states s) k)"
proof (cases "states s")
  case (JRef a)
  show ?thesis
  proof (cases "map_of (deref (heap s) a) k")
    case None
    then show ?thesis using JRef by (simp add: val_ok_def)
  next
    case (Some v)
    then have "(k, v) \<in> set (deref (heap s) a)" by (rule map_of_SomeD)
    moreover from this have "a < length (heap s)" by (auto simp: deref_def split: if_splits)
    ultimately have "val_ok (length (heap s)) v"
      using assms by (force simp: heap_ok_def deref_def)
    then show ?thesis using JRef Some by simp
  qed
next
  case (JStr x)
  then show ?thesis
    by (auto simp: val_ok_def map_of_eq_None_iff split: option.splits dest!: map_of_SomeD)
qed (simp_all add: val_ok_def)

lemma getStates_agree:
  assumes ok: "heap_ok s"
  shows "result_props (getStates q (s\<lparr>heap := heap s @ xs\<rparr>)) = result_props (getStates q s)"
proof -
  have st: "own_props (heap s @ xs) (states s) = own_props (heap s) (states s)"
    using ok by (intro val_ok_own_props) (simp add: heap_ok_def)
  have gp: "get_prop (heap s @ xs) (states s) k = get_prop (heap s) (states s) k" for k
  proof (cases "states s")
    case (JRef a)
    then show ?thesis using st by simp
  qed simp_all
  have v: "own_props (heap s @ xs) (get_prop (heap s) (states s) k) =
           own_props (heap s) (get_prop (heap s) (states s) k)" for k
    using val_ok_get_prop [OF ok] by (intro val_ok_own_props)
  have n: "deref (h @ [ob]) (length h) = ob" for h :: heap and ob
    by simp
  show ?thesis
    using n [of "heap s @ xs"] n [of "heap s"]
    by (simp add: getStates_def alloc_def result_props_def Let_def gp v st del: deref_append_new)
qed

lemma getServices_agree:
  assumes ok: "heap_ok s"
  shows "result_props (getServices (s\<lparr>heap := heap s @ xs\<rparr>)) = result_props (getServices s)"
proof -
  have st: "own_props (heap s @ xs) (services s) = own_props (heap s) (services s)"
    using ok by (intro val_ok_own_props) (simp add: heap_ok_def)
  have n: "deref (h @ [ob]) (length h) = ob" for h :: heap and ob
    by simp
  show ?thesis
    using n [of "heap s @ xs"] n [of "heap s"]
    by (simp add: getServices_def alloc_def result_props_def st del: deref_append_new)
qed

lemma caller_writes_fresh:
  "caller_writes (length (heap s)) ob' (s\<lparr>heap := heap s @ [ob]\<rparr>) = s\<lparr>heap := heap s @ [ob']\<rparr>"
  by (simp add: caller_writes_def)

lemma getStates_result:
  "getStates entityId s = (JRef a, s1) \<Longrightarrow>
   a = length (heap s) \<and> (\<exists>ob. s1 = s\<lparr>heap := heap s @ [ob]\<rparr>)"
  by (auto simp: getStates_def alloc_def Let_def split: if_splits)

lemma getServices_result:
  "getServices s = (JRef a, s1) \<Longrightarrow>
   a = length (heap s) \<and> (\<exists>ob. s1 = s\<lparr>heap := heap s @ [ob]\<rparr>)"
  by (auto simp: getServices_def alloc_def)

lemma copy_then_write:
  assumes ok: "heap_ok s" and a: "a = length (heap s)" and s1: "s1 = s\<lparr>heap := heap s @ [ob0]\<rparr>"
  shows "states s1 = states s \<and> services s1 = services s \<and>
     (\<forall>ob q. take (length (heap s)) (heap (caller_writes a ob s1)) = heap s \<and>
        result_props (getStates q (caller_writes a ob s1)) = result_props (getStates q s) \<and>
        result_props (getServices (caller_writes a ob s1)) = result_props (getServices s))"
proof -
  have w: "caller_writes a ob s1 = s\<lparr>heap := heap s @ [ob]\<rparr>" for ob
    unfolding a s1 by (rule caller_writes_fresh)
  show ?thesis
    unfolding w using getStates_agree [OF ok] getServices_agree [OF ok]
    by (simp add: s1)
qed

text \<open>
  Claim C4, as amended.  \<open>getStates\<close> and \<open>getServices\<close> return a new object (or \<open>null\<close>).
  Whatever the caller writes to the properties of that object itself, the cache keeps
  its contents (every object that existed before the call is unchanged) and any later
  \<open>getStates\<close> or \<open>getServices\<close> returns the properties it would have returned without
  the write.  Nothing is said about writes to objects nested in the returned one.
\<close>

theorem returned_copy_is_shallow:
  assumes "heap_ok s"
  shows "(\<forall>a s1. getStates entityId s = (JRef a, s1) \<longrightarrow>
            a = length (heap s) \<and> states s1 = states s \<and> services s1 = services s \<and>
            (\<forall>ob q. take (length (heap s)) (heap (caller_writes a ob s1)) = heap s \<and>
               result_props (getStates q (caller_writes a ob s1)) = result_props (getStates q s) \<and>
               result_props (getServices (caller_writes a ob s1)) = result_props (getServices s))) \<and>
         (\<forall>a s1. getServices s = (JRef a, s1) \<longrightarrow>
            a = length (heap s) \<and> states s1 = states s \<and> services s1 = services s \<and>
            (\<forall>ob q. take (length (heap s)) (heap (caller_writes a ob s1)) = heap s \<and>
               result_props (getStates q (caller_writes a ob s1)) = result_props (getStates q s) \<and>
               result_props (getServices (caller_writes a ob s1)) = result_props (getServices s)))"
proof (rule conjI; intro allI impI)
  fix a s1
  assume "getStates entityId s = (JRef a, s1)"
  from getStates_result [OF this] obtain ob0 where
    a: "a = length (heap s)" and s1: "s1 = s\<lparr>heap := heap s @ [ob0]\<rparr>" by blast
  from copy_then_write [OF assms a s1] a
  show "a = length (heap s) \<and> states s1 = states s \<and> services s1 = services s \<and>
            (\<forall>ob q. take (length (heap s)) (heap (caller_writes a ob s1)) = heap s \<and>
               result_props (getStates q (caller_writes a ob s1)) = result_props (getStates q s) \<and>
               result_props (getServices (caller_writes a ob s1)) = result_props (getServices s))"
    by blast
next
  fix a s1
  assume "getServices s = (JRef a, s1)"
  from getServices_result [OF this] obtain ob0 where
    a: "a = length (heap s)" and s1: "s1 = s\<lparr>heap := heap s @ [ob0]\<rparr>" by blast
  from copy_then_write [OF assms a s1] a
  show "a = length (heap s) \<and> states s1 = states s \<and> services s1 = services s \<and>
            (\<forall>ob q. take (length (heap s)) (heap (caller_writes a ob s1)) = heap s \<and>
               result_props (getStates q (caller_writes a ob s1)) = result_props (getStates q s) \<and>
               result_props (getServices (caller_writes a ob s1)) = result_props (getServices s))"
    by blast
qed

lemmas cache_eval =
  cache_example_def connected_example_def new_HaWebsocket_def getStates_def getServices_def
  alloc_def deref_def set_prop_def result_props_def caller_writes_def Let_def

lemma heap_ok_cache_example: "heap_ok cache_example"
  by (simp add: heap_ok_def val_ok_def cache_example_def connected_example_def new_HaWebsocket_def)

lemma getStates_cache_example:
  "getStates (JStr ''light.kitchen'') cache_example =
     (JRef 6, cache_example\<lparr>heap := heap cache_example @
        [[(''state'', JStr ''on''), (''attributes'', JRef 3)]]\<rparr>)"
  by (simp add: cache_eval)

text \<open>The theorem of C4 at the record of \<open>light.kitchen\<close>, whose copy the caller overwrites.\<close>

theorem returned_copy_is_shallow_witness:
  "heap_ok cache_example \<and>
   getStates (JStr ''light.kitchen'') cache_example =
     (JRef 6, cache_example\<lparr>heap := heap cache_example @
        [[(''state'', JStr ''on''), (''attributes'', JRef 3)]]\<rparr>) \<and>
   result_props (getStates (JStr ''light.kitchen'')
     (caller_writes 6 [(''state'', JStr ''off'')]
        (cache_example\<lparr>heap := heap cache_example @
           [[(''state'', JStr ''on''), (''attributes'', JRef 3)]]\<rparr>))) =
     Some [(''state'', JStr ''on''), (''attributes'', JRef 3)]"
proof -
  let ?s1 = "cache_example\<lparr>heap := heap cache_example @
        [[(''state'', JStr ''on''), (''attributes'', JRef 3)]]\<rparr>"
  from returned_copy_is_shallow [OF heap_ok_cache_example, of "JStr ''light.kitchen''"]
    getStates_cache_example
  have "result_props (getStates (JStr ''light.kitchen'')
          (caller_writes 6 [(''state'', JStr ''off'')] ?s1)) =
        result_props (getStates (JStr ''light.kitchen'') cache_example)"
    by blast
  also have "\<dots> = Some [(''state'', JStr ''on''), (''attributes'', JRef 3)]"
    by (simp add: cache_eval)
  finally show ?thesis using heap_ok_cache_example getStates_cache_example by simp
qed

text \<open>
  Claim C4 as stated fails: the copy is one level deep.  The mapping \<open>getStates()\<close> returns
  holds the cache's own record of \<open>light.kitchen\<close>, so a caller that sets its \<open>state\<close>
  changes what the next \<open>getStates\<close> returns; the same holds for the domain objects in
  the mapping \<open>getServices()\<close> returns.
\<close>

theorem returned_copy_counterexample:
  "getStates JUndefined cache_example = (JRef 6, copied_example) \<and>
   get_prop (heap copied_example) (JRef 6) ''light.kitchen'' = JRef 2 \<and>
   set_prop (JRef 2) ''state'' (JStr ''off'') copied_example = Inr mutated_example \<and>
   result_props (getStates (JStr ''light.kitchen'') copied_example) =
     Some [(''state'', JStr ''on''), (''attributes'', JRef 3)] \<and>
   result_props (getStates (JStr ''light.kitchen'') mutated_example) =
     Some [(''state'', JStr ''off''), (''attributes'', JRef 3)] \<and>
   getServices cache_example = (JRef 6, copied_services_example) \<and>
   get_prop (heap copied_services_example) (JRef 6) ''light'' = JRef 4 \<and>
   set_prop (JRef 4) ''turn_on'' JNull copied_services_example = Inr mutated_services_example \<and>
   get_prop (heap cache_example) (get_prop (heap cache_example) (services cache_example) ''light'')
     ''turn_on'' = JRef 5 \<and>
   get_prop (heap mutated_services_example)
     (get_prop (heap mutated_services_example) (services mutated_services_example) ''light'')
     ''turn_on'' = JNull"
  by (simp add: cache_eval copied_example_def mutated_example_def copied_services_example_def
      mutated_services_example_def)

lemmas frame_eval =
  frame_example_def cache_example_def connected_example_def new_HaWebsocket_def deref_def

text \<open>The theorem of C8 at a frame that switches \<open>light.kitchen\<close> off.\<close>

theorem state_changed_cache_before_publish_witness:
  "get_prop (heap frame_example) (JRef 6) ''event_type'' = JStr ''state_changed'' \<and>
   get_prop (heap frame_example) (JRef 6) ''data'' = JRef 7 \<and>
   get_prop (heap frame_example) (JRef 7) ''entity_id'' = JStr ''light.kitchen'' \<and>
   ''light.kitchen'' \<noteq> [] \<and>
   get_prop (heap frame_example) (JRef 7) ''new_state'' = JRef 8 \<and> truthy (JRef 8) \<and>
   states frame_example = JRef 0 \<and> 0 < length (heap frame_example) \<and>
   get_prop (heap frame_example) (states frame_example) ''light.kitchen'' = JRef 2 \<and>
   (\<exists>s' ems. onClientEvents (JRef 6) frame_example = Inr s' \<and>
      emitted s' = emitted frame_example @ ems \<and>
      map topic ems =
        [''ha_events:state_changed'', ''ha_events:state_changed:light.kitchen'', ''ha_events:all''] \<and>
      (\<forall>em \<in> set ems. get_prop (seen_heap em) (seen_states em) ''light.kitchen'' = JRef 8) \<and>
      get_prop (heap s') (states s') ''light.kitchen'' = JRef 8)"
proof -
  have h1: "get_prop (heap frame_example) (JRef 6) ''event_type'' = JStr ''state_changed''"
    and h2: "get_prop (heap frame_example) (JRef 6) ''data'' = JRef 7"
    and h3: "get_prop (heap frame_example) (JRef 7) ''entity_id'' = JStr ''light.kitchen''"
    and h4: "''light.kitchen'' \<noteq> []"
    and h5: "get_prop (heap frame_example) (JRef 7) ''new_state'' = JRef 8"
    and h6: "truthy (JRef 8)"
    and h7: "states frame_example = JRef 0"
    and h8: "0 < length (heap frame_example)"
    and h9: "get_prop (heap frame_example) (states frame_example) ''light.kitchen'' = JRef 2"
    by (simp_all add: frame_eval)
  from state_changed_cache_before_publish [OF h1 h2 h3 h4 h5 h6 h7 h8]
  obtain s' ems where
    r: "onClientEvents (JRef 6) frame_example = Inr s'"
    and e: "emitted s' = emitted frame_example @ ems"
    and t: "(6::nat) \<noteq> 0 \<longrightarrow> map topic ems =
        [''ha_events:state_changed'', ''ha_events:state_changed:'' @ ''light.kitchen'', ''ha_events:all'']"
    and a: "\<forall>em \<in> set ems. get_prop (seen_heap em) (seen_states em) ''light.kitchen'' = JRef 8"
    and c: "get_prop (heap s') (states s') ''light.kitchen'' = JRef 8"
    by (elim exE conjE) (rule that, assumption+)
  from t have t': "map topic ems =
        [''ha_events:state_changed'', ''ha_events:state_changed:light.kitchen'', ''ha_events:all'']"
    by simp
  have ex: "\<exists>s' ems. onClientEvents (JRef 6) frame_example = Inr s' \<and>
      emitted s' = emitted frame_example @ ems \<and>
      map topic ems =
        [''ha_events:state_changed'', ''ha_events:state_changed:light.kitchen'', ''ha_events:all''] \<and>
      (\<forall>em \<in> set ems. get_prop (seen_heap em) (seen_states em) ''light.kitchen'' = JRef 8) \<and>
      get_prop (heap s') (states s') ''light.kitchen'' = JRef 8"
    by (rule exI [of _ s'], rule exI [of _ ems]) (intro conjI r e t' a c)
  show ?thesis by (intro conjI h1 h2 h3 h4 h5 h6 h7 h8 h9 ex)
qed

subsection \<open>The handshake: at most one attempt at a time\<close>

lemma count_update:
  "i < length xs \<Longrightarrow>
   length (filter P (xs[i := y])) + (if P (xs ! i) then 1 else 0) =
   length (filter P xs) + (if P y then 1 else 0)"
proof (induction xs arbitrary: i)
  case Nil
  then show ?case by simp
next
  case (Cons x xs)
  show ?case
  proof (cases i)
    case 0
    then show ?thesis by simp
  next
    case (Suc j)
    then have "j < length xs" using Cons.prems by simp
    from Cons.IH [OF this] Suc show ?thesis by simp
  qed
qed

lemma count_update_same:
  "i < length xs \<Longrightarrow> P y = P (xs ! i) \<Longrightarrow>
   length (filter P (xs[i := y])) = length (filter P xs)"
  using count_update [of i xs P y] by simp

lemma count_update_le:
  "i < length xs \<Longrightarrow> (P y \<longrightarrow> P (xs ! i)) \<Longrightarrow>
   length (filter P (xs[i := y])) \<le> length (filter P xs)"
  using count_update [of i xs P y] by (simp split: if_splits)

lemma sockets_update_socket [simp]:
  "sockets (update_socket i f w) = (sockets w)[i := f (sockets w ! i)]"
  by (simp add: update_socket_def)

lemma timers_update_socket [simp]: "timers (update_socket i f w) = timers w"
  by (simp add: update_socket_def)

lemma promise_update_socket [simp]: "promise (update_socket i f w) = promise w"
  by (simp add: update_socket_def)

lemma self_update_socket [simp]: "self (update_socket i f w) = self w"
  by (simp add: update_socket_def)

lemma sockets_promReject [simp]: "sockets (promReject e w) = sockets w"
  by (simp add: promReject_def)

lemma timers_promReject [simp]: "timers (promReject e w) = timers w"
  by (simp add: promReject_def)

lemma sockets_promResolve [simp]: "sockets (promResolve i w) = sockets w"
  by (simp add: promResolve_def)

lemma timers_promResolve [simp]: "timers (promResolve i w) = timers w"
  by (simp add: promResolve_def)

lemma sockets_close:
  "i < length (sockets w) \<Longrightarrow>
   sockets (deliver (SocketClose i) w) =
     (sockets w)[i := (if close_onClose (sockets w ! i)
                       then (sockets w ! i)\<lparr>close_onClose := False, ws_closed := True\<rparr>
                       else (sockets w ! i)\<lparr>ws_closed := True\<rparr>)]"
  by (simp add: onClose_def Let_def)

lemma timers_close:
  "timers (deliver (SocketClose i) w) =
     (if close_onClose (sockets w ! i) \<and> \<not> invalidAuth (sockets w ! i)
      then timers w @ [5000] else timers w)"
  by (simp add: onClose_def Let_def)

lemma sockets_error:
  "i < length (sockets w) \<Longrightarrow>
   sockets (deliver (SocketError i) w) =
     (sockets w)[i := (if error_onClose (sockets w ! i)
                       then (sockets w ! i)\<lparr>close_onClose := False, ws_errored := True\<rparr>
                       else (sockets w ! i)\<lparr>ws_errored := True\<rparr>)]"
  by (simp add: onClose_def Let_def)

lemma timers_error:
  "timers (deliver (SocketError i) w) =
     (if error_onClose (sockets w ! i) \<and> \<not> invalidAuth (sockets w ! i)
      then timers w @ [5000] else timers w)"
  by (simp add: onClose_def Let_def)

lemma promise_close:
  "promise (deliver (SocketClose i) w) =
     (if close_onClose (sockets w ! i) \<and> invalidAuth (sockets w ! i) \<and> promise w = Pending
      then RejectedWith ERR_INVALID_AUTH else promise w)"
  by (simp add: onClose_def Let_def promReject_def)

lemma promise_error:
  "promise (deliver (SocketError i) w) =
     (if error_onClose (sockets w ! i) \<and> invalidAuth (sockets w ! i) \<and> promise w = Pending
      then RejectedWith ERR_INVALID_AUTH else promise w)"
  by (simp add: onClose_def Let_def promReject_def)

lemma one_attempt_createSocket: "one_attempt (createSocket s)"
  by (simp add: one_attempt_def createSocket_def)

lemma one_attempt_deliver:
  assumes "can_occur ev w" and "one_attempt w"
  shows "one_attempt (deliver ev w)"
proof (cases ev)
  case (TimerFires j)
  then have j: "j < length (timers w)" using assms(1) by simp
  have "length (timers w) + length (filter may_retry (sockets w)) \<le> 1"
    using assms(2) by (simp add: one_attempt_def)
  with j have l: "length (timers w) = 1" and f: "length (filter may_retry (sockets w)) = 0"
    by arith+
  from j l have "j = 0" by simp
  then have "timers (deliver ev w) = []"
    using TimerFires l by (simp add: createSocket_connect_def)
  moreover have "length (filter may_retry (sockets (deliver ev w))) = 1"
    using TimerFires f by (simp add: createSocket_connect_def may_retry_def new_WebSocket_def)
  ultimately show ?thesis by (simp add: one_attempt_def)
next
  case (SocketOpen i r)
  then have i: "i < length (sockets w)" using assms(1) by simp
  have "length (filter may_retry (sockets (deliver ev w))) = length (filter may_retry (sockets w))"
    using SocketOpen i
    by (auto simp: onOpen_def may_retry_def split: option.splits intro!: count_update_same)
  moreover have "timers (deliver ev w) = timers w"
    using SocketOpen by (simp add: onOpen_def split: option.splits)
  ultimately show ?thesis using assms(2) by (simp add: one_attempt_def)
next
  case (SocketMessage i t)
  then have i: "i < length (sockets w)" using assms(1) by simp
  have "length (filter may_retry (sockets (deliver ev w))) \<le> length (filter may_retry (sockets w))"
    using SocketMessage i
    by (auto simp: onMessage_def may_retry_def intro!: count_update_le)
  moreover have "timers (deliver ev w) = timers w"
    using SocketMessage by (simp add: onMessage_def)
  ultimately show ?thesis using assms(2) by (simp add: one_attempt_def)
next
  case (SocketClose i)
  then have i: "i < length (sockets w)" and c: "\<not> ws_closed (sockets w ! i)"
    using assms(1) by simp_all
  let ?k = "if close_onClose (sockets w ! i)
            then (sockets w ! i)\<lparr>close_onClose := False, ws_closed := True\<rparr>
            else (sockets w ! i)\<lparr>ws_closed := True\<rparr>"
  have nk: "\<not> may_retry ?k" by (simp add: may_retry_def)
  have cnt: "length (filter may_retry (sockets (deliver ev w))) +
        (if may_retry (sockets w ! i) then 1 else 0) = length (filter may_retry (sockets w))"
    using count_update [OF i, of may_retry ?k] nk
    unfolding SocketClose sockets_close [OF i] by simp
  have tm: "length (timers (deliver ev w)) \<le>
        length (timers w) + (if may_retry (sockets w ! i) then 1 else 0)"
    using c unfolding SocketClose timers_close by (simp add: may_retry_def)
  from cnt tm assms(2) show ?thesis unfolding one_attempt_def by arith
next
  case (SocketError i)
  then have i: "i < length (sockets w)" and c: "\<not> ws_closed (sockets w ! i)"
    and e: "\<not> ws_errored (sockets w ! i)"
    using assms(1) by simp_all
  let ?k = "if error_onClose (sockets w ! i)
            then (sockets w ! i)\<lparr>close_onClose := False, ws_errored := True\<rparr>
            else (sockets w ! i)\<lparr>ws_errored := True\<rparr>"
  define a :: nat where "a = (if may_retry (sockets w ! i) then 1 else 0)"
  define b :: nat where "b = (if may_retry ?k then 1 else 0)"
  define t :: nat where
    "t = (if error_onClose (sockets w ! i) \<and> \<not> invalidAuth (sockets w ! i) then 1 else 0)"
  have cnt: "length (filter may_retry (sockets (deliver ev w))) + a =
        length (filter may_retry (sockets w)) + b"
    unfolding a_def b_def SocketError sockets_error [OF i]
    by (rule count_update [OF i])
  have tm: "length (timers (deliver ev w)) = length (timers w) + t"
    unfolding t_def SocketError timers_error by simp
  have rel: "t + b \<le> a"
    unfolding a_def b_def t_def using c e by (simp add: may_retry_def)
  have "length (timers w) + length (filter may_retry (sockets w)) \<le> 1"
    using assms(2) by (simp add: one_attempt_def)
  with cnt tm rel have "length (timers (deliver ev w)) +
      length (filter may_retry (sockets (deliver ev w))) \<le> 1"
    by arith
  then show ?thesis by (simp add: one_attempt_def)
qed

lemma one_attempt_run:
  "run evs w = Some w' \<Longrightarrow> one_attempt w \<Longrightarrow> one_attempt w'"
proof (induction evs arbitrary: w)
  case Nil
  then show ?case by simp
next
  case (Cons ev evs)
  then show ?case using one_attempt_deliver by (auto split: if_splits)
qed

lemma may_retry_no_timer:
  assumes "one_attempt w" and "i < length (sockets w)" and "may_retry (sockets w ! i)"
  shows "timers w = []"
proof -
  have "sockets w ! i \<in> set (filter may_retry (sockets w))"
    using assms(2,3) by simp
  then have "filter may_retry (sockets w) \<noteq> []"
    by (metis empty_iff list.set(1))
  then have "0 < length (filter may_retry (sockets w))" by simp
  with assms(1) have "length (timers w) = 0"
    unfolding one_attempt_def by arith
  then show ?thesis by simp
qed

lemma run_append:
  "run (xs @ ys) w = (case run xs w of None \<Rightarrow> None | Some w' \<Rightarrow> run ys w')"
  by (induction xs arbitrary: w) auto

lemma failed_rounds_Suc:
  "failed_rounds (Suc n) = failed_rounds n @ [TimerFires 0, SocketClose n]"
  by (simp add: failed_rounds_def)

lemma failed_round:
  assumes "length (sockets w) = n" and "length (timers w) = 1" and "promise w = Pending"
  shows "\<exists>w'. run [TimerFires 0, SocketClose n] w = Some w' \<and> length (sockets w') = Suc n \<and>
     timers w' = [5000] \<and> promise w' = Pending"
proof -
  let ?w1 = "deliver (TimerFires 0) w"
  have t1: "timers ?w1 = []" using assms(2) by (simp add: createSocket_connect_def)
  have s1: "sockets ?w1 = sockets w @ [new_WebSocket (config (self w))]"
    by (simp add: createSocket_connect_def)
  have p1: "promise ?w1 = Pending" using assms(3) by (simp add: createSocket_connect_def)
  have k: "sockets ?w1 ! n = new_WebSocket (config (self w))"
    using assms(1) by (auto simp: s1 nth_append simp del: deliver.simps)
  have n1: "n < length (sockets ?w1)" using assms(1) by (simp add: s1 del: deliver.simps)
  have c: "can_occur (SocketClose n) ?w1"
    using n1 by (simp add: k new_WebSocket_def del: deliver.simps)
  let ?w2 = "deliver (SocketClose n) ?w1"
  have "timers ?w2 = [5000]"
    unfolding timers_close by (simp add: k t1 new_WebSocket_def del: deliver.simps)
  moreover have "promise ?w2 = Pending"
    unfolding promise_close by (simp add: k p1 new_WebSocket_def del: deliver.simps)
  moreover have "length (sockets ?w2) = Suc n"
    unfolding sockets_close [OF n1] using assms(1) by (simp add: s1 del: deliver.simps)
  moreover have "run [TimerFires 0, SocketClose n] w = Some ?w2"
    using c assms(2) by (simp del: deliver.simps can_occur.simps(4))
  ultimately show ?thesis by blast
qed

lemma failed_rounds_run:
  "\<exists>w'. run (failed_rounds n) (createSocket s) = Some w' \<and> length (sockets w') = n \<and>
     length (timers w') = 1 \<and> promise w' = Pending"
proof (induction n)
  case 0
  show ?case by (simp add: failed_rounds_def createSocket_def)
next
  case (Suc n)
  then obtain w where r: "run (failed_rounds n) (createSocket s) = Some w"
    and l: "length (sockets w) = n" and t: "length (timers w) = 1" and p: "promise w = Pending"
    by blast
  from failed_round [OF l t p] obtain w' where
    "run [TimerFires 0, SocketClose n] w = Some w'" "length (sockets w') = Suc n"
    "timers w' = [5000]" "promise w' = Pending" by blast
  then show ?case
    using r by (simp add: failed_rounds_Suc run_append del: run.simps)
qed

lemma quiescent_deliver:
  assumes "can_occur ev w" and "quiescent w"
  shows "quiescent (deliver ev w) \<and> length (sockets (deliver ev w)) = length (sockets w)"
proof -
  have oa: "one_attempt w" using assms(2) by (simp add: quiescent_def one_attempt_def)
  have t: "timers w = []" and f: "filter may_retry (sockets w) = []"
    using assms(2) by (simp_all add: quiescent_def)
  have nm: "\<not> may_retry (sockets w ! i)" if "i < length (sockets w)" for i
    using f that by (metis filter_empty_conv nth_mem)
  have oa': "one_attempt (deliver ev w)" using assms(1) oa by (rule one_attempt_deliver)
  show ?thesis
  proof (cases ev)
    case (TimerFires j)
    then show ?thesis using assms(1) t by simp
  next
    case (SocketOpen i r)
    then have i: "i < length (sockets w)" using assms(1) by simp
    have "timers (deliver ev w) = []"
      using SocketOpen t by (simp add: onOpen_def split: option.splits)
    moreover have "length (filter may_retry (sockets (deliver ev w))) = length (filter may_retry (sockets w))"
      using SocketOpen i
      by (auto simp: onOpen_def may_retry_def split: option.splits intro!: count_update_same)
    moreover have "length (sockets (deliver ev w)) = length (sockets w)"
      using SocketOpen by (simp add: onOpen_def split: option.splits)
    ultimately show ?thesis using f by (simp add: quiescent_def)
  next
    case (SocketMessage i m)
    then have i: "i < length (sockets w)" using assms(1) by simp
    have "timers (deliver ev w) = []"
      using SocketMessage t by (simp add: onMessage_def)
    moreover have "length (filter may_retry (sockets (deliver ev w))) \<le> length (filter may_retry (sockets w))"
      using SocketMessage i
      by (auto simp: onMessage_def may_retry_def intro!: count_update_le)
    moreover have "length (sockets (deliver ev w)) = length (sockets w)"
      using SocketMessage by (simp add: onMessage_def)
    ultimately show ?thesis using f by (simp add: quiescent_def)
  next
    case (SocketClose i)
    then have i: "i < length (sockets w)" and c: "\<not> ws_closed (sockets w ! i)"
      using assms(1) by simp_all
    from nm [OF i] c have nc: "\<not> close_onClose (sockets w ! i)" by (simp add: may_retry_def)
    have "timers (deliver ev w) = []"
      unfolding SocketClose timers_close using nc t by simp
    moreover have "length (filter may_retry (sockets (deliver ev w))) \<le> length (filter may_retry (sockets w))"
      unfolding SocketClose sockets_close [OF i]
      using i by (intro count_update_le) (auto simp: may_retry_def)
    moreover have "length (sockets (deliver ev w)) = length (sockets w)"
      unfolding SocketClose sockets_close [OF i] by simp
    ultimately show ?thesis using f by (simp add: quiescent_def)
  next
    case (SocketError i)
    then have i: "i < length (sockets w)" and c: "\<not> ws_closed (sockets w ! i)"
      and e: "\<not> ws_errored (sockets w ! i)"
      using assms(1) by simp_all
    from nm [OF i] c e have nc: "\<not> error_onClose (sockets w ! i)" by (simp add: may_retry_def)
    have "timers (deliver ev w) = []"
      unfolding SocketError timers_error using nc t by simp
    moreover have "length (filter may_retry (sockets (deliver ev w))) \<le> length (filter may_retry (sockets w))"
      unfolding SocketError sockets_error [OF i]
      using i by (intro count_update_le) (auto simp: may_retry_def)
    moreover have "length (sockets (deliver ev w)) = length (sockets w)"
      unfolding SocketError sockets_error [OF i] by simp
    ultimately show ?thesis using f by (simp add: quiescent_def)
  qed
qed

lemma quiescent_run:
  "run evs w = Some w' \<Longrightarrow> quiescent w \<Longrightarrow>
   quiescent w' \<and> length (sockets w') = length (sockets w)"
proof (induction evs arbitrary: w)
  case Nil
  then show ?case by simp
next
  case (Cons ev evs)
  from Cons.prems have c: "can_occur ev w" and r: "run evs (deliver ev w) = Some w'"
    by (auto split: if_splits)
  from quiescent_deliver [OF c Cons.prems(2)] Cons.IH [OF r] show ?case by simp
qed

lemmas handshake_eval =
  createSocket_def createSocket_connect_def new_WebSocket_def onOpen_def onMessage_def
  onClose_def update_socket_def promResolve_def promReject_def emit_def
  MSG_TYPE_AUTH_INVALID_def MSG_TYPE_AUTH_OK_def Let_def

lemma sockets_handshake_example:
  "sockets handshake_example =
     [(new_WebSocket config_example)\<lparr>ws_sent := [authObj config_example]\<rparr>]"
  by (simp add: handshake_example_def handshake_eval user_example_def new_HaWebsocket_def)

lemma timers_handshake_example: "timers handshake_example = []"
  by (simp add: handshake_example_def handshake_eval)

lemma promise_handshake_example: "promise handshake_example = Pending"
  by (simp add: handshake_example_def handshake_eval)

lemma run_handshake_example:
  "run [TimerFires 0, SocketOpen 0 None, SocketMessage 0 (JStr ''auth_required'')]
     (createSocket user_example) = Some handshake_example"
  by (simp add: handshake_example_def handshake_eval)

lemma run_authenticated_example:
  "run [TimerFires 0, SocketOpen 0 None, SocketMessage 0 (JStr ''auth_required''),
        SocketMessage 0 (JStr ''auth_ok'')]
     (createSocket user_example) = Some authenticated_example"
  by (simp add: authenticated_example_def handshake_example_def handshake_eval)

subsection \<open>The privilege gate\<close>

lemma connect_not_admin:
  assumes "get_prop (heap s) user ''is_admin'' = JBool False"
  shows "connect (Inr c) (Inr user) s =
     Inl (Error ''User required to have admin privileges in Home Assistant'',
          s\<lparr>client := Some (c\<lparr>closeRequested := True\<rparr>), connectionState := ERROR\<rparr>)"
proof -
  have "user \<noteq> JUndefined" "user \<noteq> JNull" using assms by auto
  then show ?thesis using assms by (simp add: connect_def)
qed

lemma connect_admin:
  assumes "user \<noteq> JUndefined" and "user \<noteq> JNull"
    and "get_prop (heap s) user ''is_admin'' \<noteq> JBool False"
  shows "\<exists>s'. connect (Inr c) (Inr user) s = Inr (True, s') \<and> connectionState s' = CONNECTED \<and>
     map topic (emitted s') = map topic (emitted s) @ [''ha_client:open'', ''ha_client:connected'']"
  using assms by (simp add: connect_def onClientOpen_def emit_def Let_def)

text \<open>
  Claim C7.  When the handshake has resolved and the user record fetched has \<open>is_admin\<close>
  equal to \<open>false\<close>, \<open>connect\<close> throws the error that asks for admin privileges, leaves
  the connection state \<open>ERROR\<close> and the client closed, emits nothing, and leaves the
  timers and sockets of the handshake as they were: it schedules no retry.
\<close>

theorem privilege_gate_rejects_non_admin:
  assumes "promise w = Resolved i"
    and "get_prop (heap (self w)) user ''is_admin'' = JBool False"
  shows "\<exists>w'. connect_on w (Inr user) =
       Some (Inl (Error ''User required to have admin privileges in Home Assistant''), w') \<and>
     connectionState (self w') = ERROR \<and>
     (\<exists>c. client (self w') = Some c \<and> closeRequested c) \<and>
     emitted (self w') = emitted (self w) \<and>
     timers w' = timers w \<and> sockets w' = sockets w \<and> promise w' = promise w"
  using assms connect_not_admin [OF assms(2), of new_client]
  by (simp add: connect_on_def createConnection_def)

lemma promise_authenticated_example: "promise authenticated_example = Resolved 0"
  by (simp add: authenticated_example_def handshake_example_def handshake_eval)

lemma self_authenticated_example:
  "heap (self authenticated_example) = heap user_example"
  by (simp add: authenticated_example_def handshake_example_def handshake_eval)

lemma timers_authenticated_example: "timers authenticated_example = []"
  by (simp add: authenticated_example_def handshake_example_def handshake_eval)

text \<open>The theorem of C7 after a handshake that ended with \<open>auth_ok\<close>, for a user who is no admin.\<close>

theorem privilege_gate_rejects_non_admin_witness:
  "promise authenticated_example = Resolved 0 \<and>
   get_prop (heap (self authenticated_example)) (JRef 0) ''is_admin'' = JBool False \<and>
   (\<exists>w'. connect_on authenticated_example (Inr (JRef 0)) =
       Some (Inl (Error ''User required to have admin privileges in Home Assistant''), w') \<and>
     connectionState (self w') = ERROR \<and> timers w' = [])"
proof -
  have a: "get_prop (heap (self authenticated_example)) (JRef 0) ''is_admin'' = JBool False"
    by (simp add: self_authenticated_example user_example_def new_HaWebsocket_def deref_def)
  from privilege_gate_rejects_non_admin [OF promise_authenticated_example a]
  obtain w' where "connect_on authenticated_example (Inr (JRef 0)) =
       Some (Inl (Error ''User required to have admin privileges in Home Assistant''), w')"
    and "connectionState (self w') = ERROR" and "timers w' = timers authenticated_example"
    by (elim exE conjE) (rule that, assumption+)
  then have "\<exists>w'. connect_on authenticated_example (Inr (JRef 0)) =
       Some (Inl (Error ''User required to have admin privileges in Home Assistant''), w') \<and>
     connectionState (self w') = ERROR \<and> timers w' = []"
    by (simp add: timers_authenticated_example)
  with promise_authenticated_example a show ?thesis by (intro conjI)
qed

text \<open>
  Claim C10.  For a user record (any value but \<open>null\<close> and \<open>undefined\<close>), \<open>connect\<close> throws
  the privilege error when \<open>is_admin\<close> is the boolean \<open>false\<close>; for every other value of
  \<open>is_admin\<close>, a missing one included, it returns \<open>true\<close> with the connection state
  \<open>CONNECTED\<close>.
\<close>

theorem privilege_gate_only_false:
  assumes "user \<noteq> JUndefined" and "user \<noteq> JNull"
  shows "(get_prop (heap s) user ''is_admin'' = JBool False \<longrightarrow>
            (\<exists>s'. connect (Inr c) (Inr user) s =
               Inl (Error ''User required to have admin privileges in Home Assistant'', s'))) \<and>
         (get_prop (heap s) user ''is_admin'' \<noteq> JBool False \<longrightarrow>
            (\<exists>s'. connect (Inr c) (Inr user) s = Inr (True, s') \<and>
               connectionState s' = CONNECTED))"
proof (intro conjI impI)
  assume "get_prop (heap s) user ''is_admin'' = JBool False"
  from connect_not_admin [OF this, of c]
  show "\<exists>s'. connect (Inr c) (Inr user) s =
               Inl (Error ''User required to have admin privileges in Home Assistant'', s')"
    by simp
next
  assume "get_prop (heap s) user ''is_admin'' \<noteq> JBool False"
  from connect_admin [OF assms this, of c]
  show "\<exists>s'. connect (Inr c) (Inr user) s = Inr (True, s') \<and> connectionState s' = CONNECTED"
    by blast
qed

text \<open>
  The theorem of C10 at a user without \<open>is_admin\<close>, at one whose \<open>is_admin\<close> is the number
  \<open>0\<close>, and at one whose \<open>is_admin\<close> is \<open>false\<close>.
\<close>

theorem privilege_gate_only_false_witness:
  "get_prop (heap user_example) (JRef 1) ''is_admin'' = JUndefined \<and>
   (\<exists>s'. connect (Inr new_client) (Inr (JRef 1)) user_example = Inr (True, s') \<and>
      connectionState s' = CONNECTED) \<and>
   get_prop (heap user_example) (JRef 2) ''is_admin'' = JNum 0 \<and>
   (\<exists>s'. connect (Inr new_client) (Inr (JRef 2)) user_example = Inr (True, s') \<and>
      connectionState s' = CONNECTED) \<and>
   get_prop (heap user_example) (JRef 0) ''is_admin'' = JBool False \<and>
   (\<exists>s'. connect (Inr new_client) (Inr (JRef 0)) user_example =
      Inl (Error ''User required to have admin privileges in Home Assistant'', s'))"
proof -
  have g1: "get_prop (heap user_example) (JRef 1) ''is_admin'' = JUndefined"
    and g2: "get_prop (heap user_example) (JRef 2) ''is_admin'' = JNum 0"
    and g0: "get_prop (heap user_example) (JRef 0) ''is_admin'' = JBool False"
    by (simp_all add: user_example_def new_HaWebsocket_def deref_def)
  have n: "JRef a \<noteq> JUndefined" "JRef a \<noteq> JNull" for a by simp_all
  note t1 = privilege_gate_only_false [OF n, of user_example 1 new_client, THEN conjunct2, rule_format]
  note t2 = privilege_gate_only_false [OF n, of user_example 2 new_client, THEN conjunct2, rule_format]
  note t0 = privilege_gate_only_false [OF n, of user_example 0 new_client, THEN conjunct1, rule_format]
  have a1: "\<exists>s'. connect (Inr new_client) (Inr (JRef 1)) user_example = Inr (True, s') \<and>
      connectionState s' = CONNECTED"
    by (rule t1) (unfold g1, simp)
  have a2: "\<exists>s'. connect (Inr new_client) (Inr (JRef 2)) user_example = Inr (True, s') \<and>
      connectionState s' = CONNECTED"
    by (rule t2) (unfold g2, simp)
  have a0: "\<exists>s'. connect (Inr new_client) (Inr (JRef 0)) user_example =
      Inl (Error ''User required to have admin privileges in Home Assistant'', s')"
    by (rule t0) (rule g0)
  show ?thesis by (intro conjI g1 a1 g2 a2 g0 a0)
qed

subsection \<open>Invalid auth and retries\<close>

lemma reachable_one_attempt: "run evs (createSocket s) = Some w \<Longrightarrow> one_attempt w"
  using one_attempt_run one_attempt_createSocket by blast

lemma sole_may_retry:
  assumes oa: "one_attempt w" and i: "i < length (sockets w)" and m: "may_retry (sockets w ! i)"
    and n: "\<not> may_retry k"
  shows "filter may_retry ((sockets w)[i := k]) = []"
proof -
  have "length (filter may_retry (sockets w)) \<le> 1"
    using oa by (simp add: one_attempt_def)
  moreover have "length (filter may_retry ((sockets w)[i := k])) + 1 =
      length (filter may_retry (sockets w))"
    using count_update [OF i, of may_retry k] m n by simp
  ultimately have "length (filter may_retry ((sockets w)[i := k])) = 0" by arith
  then show ?thesis by simp
qed

lemma connect_on_rejected:
  assumes "promise w = RejectedWith ERR_INVALID_AUTH"
  shows "connect_on w fetched =
     Some (Inl (Error ''Invalid access token or password for websocket''),
           w\<lparr>self := emit ''ha_client:close'' [] ((self w)\<lparr>connectionState := ERROR\<rparr>)\<rparr>)"
  using assms by (simp add: connect_on_def createConnection_def connect_def)

lemma auth_invalid_message:
  assumes i: "i < length (sockets w)" and att: "message_onMessage (sockets w ! i)"
  shows "sockets (deliver (SocketMessage i (JStr ''auth_invalid'')) w) =
           (sockets w)[i := (sockets w ! i)\<lparr>invalidAuth := True, ws_close_called := True\<rparr>]"
    and "timers (deliver (SocketMessage i (JStr ''auth_invalid'')) w) = timers w"
    and "promise (deliver (SocketMessage i (JStr ''auth_invalid'')) w) = promise w"
  using att by (simp_all add: onMessage_def MSG_TYPE_AUTH_INVALID_def)

text \<open>
  Claim C5.  Take a state the handshake can reach, and in it a socket in its handshake
  phase (listeners attached, neither \<open>close\<close> nor \<open>error\<close> fired yet) while the promise is
  pending.  A message \<open>auth_invalid\<close> sets \<open>invalidAuth\<close> and calls \<open>close()\<close>; the \<open>close\<close> or
  \<open>error\<close> event that follows rejects the promise with \<open>ERR_INVALID_AUTH\<close>, so that
  \<open>connect\<close> throws the invalid-token error with the state \<open>ERROR\<close>.  No timer is pending
  after the message or after the event, and none is ever scheduled afterwards: whatever
  events follow, no timer appears and no further socket is created.
\<close>

theorem auth_invalid_not_retried:
  assumes reach: "run evs (createSocket s) = Some w"
    and i: "i < length (sockets w)"
    and att: "message_onMessage (sockets w ! i)" "close_onClose (sockets w ! i)"
      "error_onClose (sockets w ! i)"
    and live: "\<not> ws_closed (sockets w ! i)" "\<not> ws_errored (sockets w ! i)"
    and pend: "promise w = Pending"
    and ev: "ev = SocketClose i \<or> ev = SocketError i"
  shows "let w1 = deliver (SocketMessage i (JStr ''auth_invalid'')) w; w2 = deliver ev w1 in
     can_occur (SocketMessage i (JStr ''auth_invalid'')) w \<and>
     invalidAuth (sockets w1 ! i) \<and> ws_close_called (sockets w1 ! i) \<and>
     timers w1 = [] \<and> promise w1 = Pending \<and>
     can_occur ev w1 \<and>
     promise w2 = RejectedWith ERR_INVALID_AUTH \<and> timers w2 = [] \<and>
     (\<exists>s'. connect_on w2 fetched =
         Some (Inl (Error ''Invalid access token or password for websocket''), w2\<lparr>self := s'\<rparr>) \<and>
         connectionState s' = ERROR) \<and>
     (\<forall>evs' w3. run evs' w2 = Some w3 \<longrightarrow>
         timers w3 = [] \<and> length (sockets w3) = length (sockets w))"
proof -
  let ?m = "SocketMessage i (JStr ''auth_invalid'')"
  let ?w1 = "deliver ?m w"
  let ?w2 = "deliver ev ?w1"
  let ?k = "sockets w ! i"
  let ?k1 = "?k\<lparr>invalidAuth := True, ws_close_called := True\<rparr>"
  have oa: "one_attempt w" using reach by (rule reachable_one_attempt)
  have mr: "may_retry ?k" using att(2) live(1) by (simp add: may_retry_def)
  have t0: "timers w = []" using oa i mr by (rule may_retry_no_timer)
  have s1: "sockets ?w1 = (sockets w)[i := ?k1]"
    and t1: "timers ?w1 = []" and p1: "promise ?w1 = Pending"
    using auth_invalid_message [OF i att(1)] t0 pend by simp_all
  have i1: "i < length (sockets ?w1)" using i by (simp add: s1 del: deliver.simps)
  have k1: "sockets ?w1 ! i = ?k1" using i by (simp add: s1 del: deliver.simps)
  have c0: "can_occur ?m w" using i live(1) by simp
  have c1: "can_occur ev ?w1"
    using ev i1 live by (auto simp: k1 simp del: deliver.simps)
  have p2: "promise ?w2 = RejectedWith ERR_INVALID_AUTH"
    using ev att p1 by (auto simp: promise_close promise_error k1 simp del: deliver.simps)
  have t2: "timers ?w2 = []"
    using ev t1 by (auto simp: timers_close timers_error k1 simp del: deliver.simps)
  have s2: "\<exists>k2. \<not> may_retry k2 \<and> sockets ?w2 = (sockets w)[i := k2]"
  proof -
    from ev show ?thesis
    proof
      assume e: "ev = SocketClose i"
      have "sockets ?w2 = (sockets w)[i := ?k1\<lparr>close_onClose := False, ws_closed := True\<rparr>]"
        unfolding e sockets_close [OF i1] k1 using att(2) by (simp add: s1 del: deliver.simps)
      moreover have "\<not> may_retry (?k1\<lparr>close_onClose := False, ws_closed := True\<rparr>)"
        by (simp add: may_retry_def)
      ultimately show ?thesis by blast
    next
      assume e: "ev = SocketError i"
      have "sockets ?w2 = (sockets w)[i := ?k1\<lparr>close_onClose := False, ws_errored := True\<rparr>]"
        unfolding e sockets_error [OF i1] k1 using att(3) by (simp add: s1 del: deliver.simps)
      moreover have "\<not> may_retry (?k1\<lparr>close_onClose := False, ws_errored := True\<rparr>)"
        by (simp add: may_retry_def)
      ultimately show ?thesis by blast
    qed
  qed
  then obtain k2 where nk2: "\<not> may_retry k2" and sk2: "sockets ?w2 = (sockets w)[i := k2]"
    by blast
  have q2: "quiescent ?w2"
    unfolding quiescent_def sk2 using t2 sole_may_retry [OF oa i mr nk2] by simp
  have l2: "length (sockets ?w2) = length (sockets w)" by (simp add: sk2 del: deliver.simps)
  have fin: "\<forall>evs' w3. run evs' ?w2 = Some w3 \<longrightarrow>
         timers w3 = [] \<and> length (sockets w3) = length (sockets w)"
    using quiescent_run [OF _ q2] l2 by (auto simp: quiescent_def simp del: deliver.simps)
  have con: "\<exists>s'. connect_on ?w2 fetched =
         Some (Inl (Error ''Invalid access token or password for websocket''), ?w2\<lparr>self := s'\<rparr>) \<and>
         connectionState s' = ERROR"
    unfolding connect_on_rejected [OF p2]
    by (rule exI [of _ "emit ''ha_client:close'' [] ((self ?w2)\<lparr>connectionState := ERROR\<rparr>)"])
      (simp add: emit_def del: deliver.simps)
  show ?thesis
    unfolding Let_def
    using c0 k1 t1 p1 c1 p2 t2 con fin by (simp del: deliver.simps can_occur.simps)
qed

lemma sockets_handshake_example_nth:
  "sockets handshake_example ! 0 = (new_WebSocket config_example)\<lparr>ws_sent := [authObj config_example]\<rparr>"
  by (simp add: sockets_handshake_example)

text \<open>The theorem of C5 at a socket that has sent its auth frame and received \<open>auth_required\<close>.\<close>

theorem auth_invalid_not_retried_witness:
  "run [TimerFires 0, SocketOpen 0 None, SocketMessage 0 (JStr ''auth_required'')]
     (createSocket user_example) = Some handshake_example \<and>
   0 < length (sockets handshake_example) \<and>
   message_onMessage (sockets handshake_example ! 0) \<and>
   close_onClose (sockets handshake_example ! 0) \<and>
   error_onClose (sockets handshake_example ! 0) \<and>
   ws_closed (sockets handshake_example ! 0) = False \<and>
   ws_errored (sockets handshake_example ! 0) = False \<and>
   promise handshake_example = Pending \<and>
   promise (deliver (SocketClose 0)
     (deliver (SocketMessage 0 (JStr ''auth_invalid'')) handshake_example)) =
     RejectedWith ERR_INVALID_AUTH \<and>
   timers (deliver (SocketClose 0)
     (deliver (SocketMessage 0 (JStr ''auth_invalid'')) handshake_example)) = []"
proof -
  have i: "0 < length (sockets handshake_example)"
    by (simp add: sockets_handshake_example)
  have a1: "message_onMessage (sockets handshake_example ! 0)"
    and a2: "close_onClose (sockets handshake_example ! 0)"
    and a3: "error_onClose (sockets handshake_example ! 0)"
    and l1: "\<not> ws_closed (sockets handshake_example ! 0)"
    and l2: "\<not> ws_errored (sockets handshake_example ! 0)"
    by (simp_all add: sockets_handshake_example_nth new_WebSocket_def)
  have e: "SocketClose 0 = SocketClose 0 \<or> SocketClose 0 = SocketError 0" by simp
  from auth_invalid_not_retried [OF run_handshake_example i a1 a2 a3 l1 l2
      promise_handshake_example e, where fetched = "Inr JNull"]
  have "promise (deliver (SocketClose 0)
     (deliver (SocketMessage 0 (JStr ''auth_invalid'')) handshake_example)) =
     RejectedWith ERR_INVALID_AUTH \<and>
   timers (deliver (SocketClose 0)
     (deliver (SocketMessage 0 (JStr ''auth_invalid'')) handshake_example)) = []"
    unfolding Let_def by (elim conjE) (rule conjI; assumption)
  with run_handshake_example i a1 a2 a3 l1 l2 promise_handshake_example
  show ?thesis by (simp del: deliver.simps run.simps)
qed

lemma begins_attempt_timer:
  "timers w = [d] \<Longrightarrow> begins_attempt w (deliver (TimerFires 0) w)"
  by (simp add: begins_attempt_def createSocket_connect_def emit_def)

text \<open>
  Claim C6.  In every state the handshake can reach (under the discipline of \<open>can_occur\<close>)
  at most one timer is pending.  For a socket that has not closed and whose
  \<open>invalidAuth\<close> is unset: its \<open>close\<close> event, and likewise its \<open>error\<close> event, finds no
  timer pending and schedules exactly one, of 5000 ms; the \<open>close\<close> that follows an
  \<open>error\<close> schedules nothing more; when that timer fires a new socket is created, the
  state becomes \<open>CONNECTING\<close> and \<open>ha_client:connecting\<close> is emitted.  After \<open>auth_ok\<close> no
  timer is ever scheduled and no socket created.  There is no bound on the retries: for
  every \<open>n\<close>, after \<open>n\<close> attempts that each ended in \<open>close\<close>, the next retry is pending and
  the promise still is.
\<close>

theorem retry_after_close_or_error:
  assumes reach: "run evs (createSocket s) = Some w"
  shows "length (timers w) \<le> 1 \<and>
    (\<forall>i. i < length (sockets w) \<and> \<not> ws_closed (sockets w ! i) \<and>
         \<not> invalidAuth (sockets w ! i) \<longrightarrow>
       (close_onClose (sockets w ! i) \<longrightarrow>
          timers w = [] \<and> can_occur (SocketClose i) w \<and>
          timers (deliver (SocketClose i) w) = [5000] \<and>
          begins_attempt (deliver (SocketClose i) w)
            (deliver (TimerFires 0) (deliver (SocketClose i) w))) \<and>
       (error_onClose (sockets w ! i) \<and> \<not> ws_errored (sockets w ! i) \<longrightarrow>
          timers w = [] \<and> can_occur (SocketError i) w \<and>
          timers (deliver (SocketError i) w) = [5000] \<and>
          timers (deliver (SocketClose i) (deliver (SocketError i) w)) = [5000] \<and>
          begins_attempt (deliver (SocketError i) w)
            (deliver (TimerFires 0) (deliver (SocketError i) w))) \<and>
       (message_onMessage (sockets w ! i) \<and> close_onClose (sockets w ! i) \<longrightarrow>
          promise (deliver (SocketMessage i (JStr ''auth_ok'')) w) =
            (if promise w = Pending then Resolved i else promise w) \<and>
          (\<forall>evs' w3. run evs' (deliver (SocketMessage i (JStr ''auth_ok'')) w) = Some w3 \<longrightarrow>
             timers w3 = [] \<and> length (sockets w3) = length (sockets w)))) \<and>
    (\<forall>n. \<exists>w'. run (failed_rounds n) (createSocket s) = Some w' \<and> length (sockets w') = n \<and>
       length (timers w') = 1 \<and> promise w' = Pending)"
proof (intro conjI allI impI)
  have oa: "one_attempt w" using reach by (rule reachable_one_attempt)
  then show "length (timers w) \<le> 1" by (simp add: one_attempt_def)
  fix i
  assume h: "i < length (sockets w) \<and> \<not> ws_closed (sockets w ! i) \<and> \<not> invalidAuth (sockets w ! i)"
  then have i: "i < length (sockets w)" and nc: "\<not> ws_closed (sockets w ! i)"
    and ni: "\<not> invalidAuth (sockets w ! i)" by simp_all
  {
    assume c: "close_onClose (sockets w ! i)"
    then have "may_retry (sockets w ! i)" using nc by (simp add: may_retry_def)
    with oa i have t0: "timers w = []" by (rule may_retry_no_timer)
    have t1: "timers (deliver (SocketClose i) w) = [5000]"
      unfolding timers_close using c ni t0 by simp
    show "timers w = []" by (rule t0)
    show "can_occur (SocketClose i) w" using i nc by simp
    show "timers (deliver (SocketClose i) w) = [5000]" by (rule t1)
    show "begins_attempt (deliver (SocketClose i) w)
            (deliver (TimerFires 0) (deliver (SocketClose i) w))"
      using t1 by (rule begins_attempt_timer)
  }
  {
    assume "error_onClose (sockets w ! i) \<and> \<not> ws_errored (sockets w ! i)"
    then have c: "error_onClose (sockets w ! i)" and ne: "\<not> ws_errored (sockets w ! i)"
      by simp_all
    then have "may_retry (sockets w ! i)" using nc by (simp add: may_retry_def)
    with oa i have t0: "timers w = []" by (rule may_retry_no_timer)
    have t1: "timers (deliver (SocketError i) w) = [5000]"
      unfolding timers_error using c ni t0 by simp
    have i1: "i < length (sockets (deliver (SocketError i) w))"
      unfolding sockets_error [OF i] using i by simp
    have "\<not> close_onClose (sockets (deliver (SocketError i) w) ! i)"
      unfolding sockets_error [OF i] using i c by simp
    then have t2: "timers (deliver (SocketClose i) (deliver (SocketError i) w)) = [5000]"
      unfolding timers_close [of i "deliver (SocketError i) w"] using t1
      by (simp del: deliver.simps)
    show "timers w = []" by (rule t0)
    show "can_occur (SocketError i) w" using i nc ne by simp
    show "timers (deliver (SocketError i) w) = [5000]" by (rule t1)
    show "timers (deliver (SocketClose i) (deliver (SocketError i) w)) = [5000]" by (rule t2)
    show "begins_attempt (deliver (SocketError i) w)
            (deliver (TimerFires 0) (deliver (SocketError i) w))"
      using t1 by (rule begins_attempt_timer)
  }
  {
    assume "message_onMessage (sockets w ! i) \<and> close_onClose (sockets w ! i)"
    then have m: "message_onMessage (sockets w ! i)" and c: "close_onClose (sockets w ! i)"
      by simp_all
    let ?w1 = "deliver (SocketMessage i (JStr ''auth_ok'')) w"
    let ?k = "(sockets w ! i)\<lparr>open_onOpen := False, message_onMessage := False,
                     close_onClose := False, error_onClose := False\<rparr>"
    have mr: "may_retry (sockets w ! i)" using c nc by (simp add: may_retry_def)
    with oa i have t0: "timers w = []" by (rule may_retry_no_timer)
    have s1: "sockets ?w1 = (sockets w)[i := ?k]" and t1: "timers ?w1 = []"
      using m t0 by (simp_all add: onMessage_def MSG_TYPE_AUTH_OK_def MSG_TYPE_AUTH_INVALID_def)
    have nk: "\<not> may_retry ?k" by (simp add: may_retry_def)
    have q: "quiescent ?w1"
      unfolding quiescent_def s1 using t1 sole_may_retry [OF oa i mr nk] by simp
    have l: "length (sockets ?w1) = length (sockets w)" by (simp add: s1 del: deliver.simps)
    show "promise ?w1 = (if promise w = Pending then Resolved i else promise w)"
      using m
      by (simp add: onMessage_def MSG_TYPE_AUTH_OK_def MSG_TYPE_AUTH_INVALID_def promResolve_def
          update_socket_def)
    fix evs' w3
    assume "run evs' ?w1 = Some w3"
    from quiescent_run [OF this q] l
    show "timers w3 = []" and "length (sockets w3) = length (sockets w)"
      by (simp_all add: quiescent_def del: deliver.simps)
  }
next
  fix n
  show "\<exists>w'. run (failed_rounds n) (createSocket s) = Some w' \<and> length (sockets w') = n \<and>
       length (timers w') = 1 \<and> promise w' = Pending"
    by (rule failed_rounds_run)
qed

text \<open>The theorem of C6 at a socket in its handshake phase, and at three failed attempts.\<close>

theorem retry_after_close_or_error_witness:
  "run [TimerFires 0, SocketOpen 0 None, SocketMessage 0 (JStr ''auth_required'')]
     (createSocket user_example) = Some handshake_example \<and>
   0 < length (sockets handshake_example) \<and>
   ws_closed (sockets handshake_example ! 0) = False \<and>
   invalidAuth (sockets handshake_example ! 0) = False \<and>
   close_onClose (sockets handshake_example ! 0) \<and>
   error_onClose (sockets handshake_example ! 0) \<and>
   ws_errored (sockets handshake_example ! 0) = False \<and>
   length (timers handshake_example) \<le> 1 \<and>
   timers (deliver (SocketClose 0) handshake_example) = [5000] \<and>
   begins_attempt (deliver (SocketClose 0) handshake_example)
     (deliver (TimerFires 0) (deliver (SocketClose 0) handshake_example)) \<and>
   timers (deliver (SocketError 0) handshake_example) = [5000] \<and>
   timers (deliver (SocketClose 0) (deliver (SocketError 0) handshake_example)) = [5000] \<and>
   (\<exists>w'. run (failed_rounds 3) (createSocket user_example) = Some w' \<and>
      length (sockets w') = 3 \<and> length (timers w') = 1 \<and> promise w' = Pending)"
proof -
  note r = retry_after_close_or_error [OF run_handshake_example]
  have i: "0 < length (sockets handshake_example)"
    by (simp add: sockets_handshake_example)
  have nc: "\<not> ws_closed (sockets handshake_example ! 0)"
    and ni: "\<not> invalidAuth (sockets handshake_example ! 0)"
    and c: "close_onClose (sockets handshake_example ! 0)"
    and e: "error_onClose (sockets handshake_example ! 0)"
    and ne: "\<not> ws_errored (sockets handshake_example ! 0)"
    by (simp_all add: sockets_handshake_example_nth new_WebSocket_def)
  from r have b: "length (timers handshake_example) \<le> 1" by (rule conjunct1)
  note r2 = r [THEN conjunct2, THEN conjunct1, rule_format, OF conjI [OF i conjI [OF nc ni]]]
  note rc = r2 [THEN conjunct1, rule_format, OF c]
  note re = r2 [THEN conjunct2, THEN conjunct1, rule_format, OF conjI [OF e ne]]
  note rn = r [THEN conjunct2, THEN conjunct2, rule_format, of 3]
  have c1: "timers (deliver (SocketClose 0) handshake_example) = [5000]"
    by (rule rc [THEN conjunct2, THEN conjunct2, THEN conjunct1])
  have c2: "begins_attempt (deliver (SocketClose 0) handshake_example)
     (deliver (TimerFires 0) (deliver (SocketClose 0) handshake_example))"
    by (rule rc [THEN conjunct2, THEN conjunct2, THEN conjunct2])
  have e1: "timers (deliver (SocketError 0) handshake_example) = [5000]"
    by (rule re [THEN conjunct2, THEN conjunct2, THEN conjunct1])
  have e2: "timers (deliver (SocketClose 0) (deliver (SocketError 0) handshake_example)) = [5000]"
    by (rule re [THEN conjunct2, THEN conjunct2, THEN conjunct2, THEN conjunct1])
  show ?thesis
    using nc ni ne
    by (intro conjI run_handshake_example i c e b c1 c2 e1 e2 rn) simp_all
qed

end
